theory Spec2Isabelle
  imports Main "HOL-Library.Word"
begin

section \<open>Bytes and JSON documents\<close>

text \<open>
  \<^verbatim>\<open>cmd/ollama-proxy-metrics/main.go\<close> hands the request body and, in buffered mode, the
  upstream body to \<^verbatim>\<open>json.Unmarshal\<close>. A Go \<^verbatim>\<open>[]byte\<close> is a list of \<open>char\<close> (a \<open>char\<close>
  is one byte). \<^verbatim>\<open>json.Unmarshal\<close> first checks the whole input against the JSON grammar
  (\<^verbatim>\<open>checkValid\<close>) and only then stores values, so it is modelled in two steps: \<open>json_scan\<close>
  reads the bytes as a document (\<open>None\<close>: a syntax error, nothing is stored), and the
  \<open>Unmarshal_\<close> functions below store a document into the two structs of the program.
  An object keeps its members in input order, duplicates included, because the decoder
  visits them one after the other. A number keeps its literal text, a string is unquoted.
\<close>

type_synonym bytes = string

datatype json =
    JNull
  | JBool bool
  | JNumber bytes
  | JString bytes
  | JArray "json list"
  | JObject "(bytes \<times> json) list"

definition byte :: "char \<Rightarrow> nat" where
  "byte c = of_char c"

abbreviation dquote :: char where
  "dquote \<equiv> CHR 0x22"

abbreviation backslash :: char where
  "backslash \<equiv> CHR 0x5C"

definition is_space :: "char \<Rightarrow> bool" where
  "is_space c = (c = CHR '' '' \<or> c = CHR 0x09 \<or> c = CHR 0x0D \<or> c = CHR 0x0A)"

definition is_digit :: "char \<Rightarrow> bool" where
  "is_digit c = (48 \<le> byte c \<and> byte c \<le> 57)"

definition is_digit19 :: "char \<Rightarrow> bool" where
  "is_digit19 c = (49 \<le> byte c \<and> byte c \<le> 57)"

definition hex_val :: "char \<Rightarrow> nat option" where
  "hex_val c =
     (if 48 \<le> byte c \<and> byte c \<le> 57 then Some (byte c - 48)
      else if 97 \<le> byte c \<and> byte c \<le> 102 then Some (byte c - 87)
      else if 65 \<le> byte c \<and> byte c \<le> 70 then Some (byte c - 55)
      else None)"

subsection \<open>Unquoting a string literal\<close>

text \<open>
  \<open>utf8_len bs\<close> is the length of the well-formed UTF-8 sequence \<open>bs\<close> starts with, and \<open>0\<close>
  when it starts with none (\<^verbatim>\<open>utf8.DecodeRune\<close> returns \<^verbatim>\<open>RuneError\<close> with size 1 there).
\<close>

definition is_cont :: "char \<Rightarrow> bool" where
  "is_cont c = (128 \<le> byte c \<and> byte c \<le> 191)"

definition utf8_len :: "bytes \<Rightarrow> nat" where
  "utf8_len bs =
     (case bs of
        [] \<Rightarrow> 0
      | b0 # r0 \<Rightarrow>
          if byte b0 < 128 then 1
          else (case r0 of
                  [] \<Rightarrow> 0
                | b1 # r1 \<Rightarrow>
                    if 194 \<le> byte b0 \<and> byte b0 \<le> 223 then (if is_cont b1 then 2 else 0)
                    else (case r1 of
                            [] \<Rightarrow> 0
                          | b2 # r2 \<Rightarrow>
                              if 224 \<le> byte b0 \<and> byte b0 \<le> 239 then
                                (if (if byte b0 = 224 then 160 \<le> byte b1 \<and> byte b1 \<le> 191
                                     else if byte b0 = 237 then 128 \<le> byte b1 \<and> byte b1 \<le> 159
                                     else is_cont b1) \<and> is_cont b2
                                 then 3 else 0)
                              else (case r2 of
                                      [] \<Rightarrow> 0
                                    | b3 # r3 \<Rightarrow>
                                        if 240 \<le> byte b0 \<and> byte b0 \<le> 244 \<and>
                                           (if byte b0 = 240 then 144 \<le> byte b1 \<and> byte b1 \<le> 191
                                            else if byte b0 = 244 then 128 \<le> byte b1 \<and> byte b1 \<le> 143
                                            else is_cont b1) \<and> is_cont b2 \<and> is_cont b3
                                        then 4 else 0))))"

definition replacement_char :: bytes where
  "replacement_char = [CHR 0xEF, CHR 0xBF, CHR 0xBD]"

definition EncodeRune :: "nat \<Rightarrow> bytes" where
  "EncodeRune r =
     (if r < 128 then [char_of r]
      else if r < 2048 then [char_of (192 + r div 64), char_of (128 + r mod 64)]
      else if 55296 \<le> r \<and> r \<le> 57343 then replacement_char
      else if r < 65536 then
        [char_of (224 + r div 4096), char_of (128 + r div 64 mod 64), char_of (128 + r mod 64)]
      else if r < 1114112 then
        [char_of (240 + r div 262144), char_of (128 + r div 4096 mod 64),
         char_of (128 + r div 64 mod 64), char_of (128 + r mod 64)]
      else replacement_char)"

text \<open>\<^verbatim>\<open>getu4\<close>: the code unit of \<^verbatim>\<open>\uXXXX\<close> at the head of the input.\<close>

definition getu4 :: "bytes \<Rightarrow> nat option" where
  "getu4 s =
     (case s of
        b # u # h1 # h2 # h3 # h4 # _ \<Rightarrow>
          if b = backslash \<and> u = CHR ''u'' then
            (case (hex_val h1, hex_val h2, hex_val h3, hex_val h4) of
               (Some a, Some b, Some c, Some d) \<Rightarrow> Some (((a * 16 + b) * 16 + c) * 16 + d)
             | _ \<Rightarrow> None)
          else None
      | _ \<Rightarrow> None)"

definition escape_char :: "char \<Rightarrow> char" where
  "escape_char e =
     (if e = CHR ''b'' then CHR 0x08
      else if e = CHR ''f'' then CHR 0x0C
      else if e = CHR ''n'' then CHR 0x0A
      else if e = CHR ''r'' then CHR 0x0D
      else if e = CHR ''t'' then CHR 0x09
      else e)"

text \<open>
  \<^verbatim>\<open>unquoteBytes\<close> on the text between the quotes, which the scanner has already accepted:
  escapes are replaced, a surrogate pair of two \<^verbatim>\<open>\u\<close> escapes becomes one rune, a lone
  surrogate and every byte that starts no well-formed UTF-8 sequence become U+FFFD.
\<close>

fun unquote :: "bytes \<Rightarrow> bytes" where
  "unquote [] = []"
| "unquote (c # cs) =
     (if c = backslash then
        (case cs of
           [] \<Rightarrow> []
         | e # rest \<Rightarrow>
             if e = CHR ''u'' then
               (case getu4 (c # cs) of
                  None \<Rightarrow> []
                | Some rr \<Rightarrow>
                    if 55296 \<le> rr \<and> rr \<le> 57343 then
                      (case getu4 (drop 5 cs) of
                         None \<Rightarrow> replacement_char @ unquote (drop 5 cs)
                       | Some rr1 \<Rightarrow>
                           if rr < 56320 \<and> 56320 \<le> rr1 \<and> rr1 \<le> 57343
                           then EncodeRune ((rr - 55296) * 1024 + (rr1 - 56320) + 65536)
                                @ unquote (drop 11 cs)
                           else replacement_char @ unquote (drop 5 cs))
                    else EncodeRune rr @ unquote (drop 5 cs))
             else escape_char e # unquote rest)
      else if byte c < 128 then c # unquote cs
      else if utf8_len (c # cs) = 0 then replacement_char @ unquote cs
      else take (utf8_len (c # cs)) (c # cs) @ unquote (drop (utf8_len (c # cs) - 1) cs))"

subsection \<open>Tokens\<close>

datatype token =
    TBeginObject | TEndObject | TBeginArray | TEndArray | TColon | TComma
  | TValue json

text \<open>The states of a number literal, named as in \<^verbatim>\<open>encoding/json/scanner.go\<close>.\<close>

datatype num_state = stateNeg | state0 | state1 | stateDot | stateDot0 | stateE | stateESign | stateE0

datatype num_next = NumGo num_state | NumEnd | NumBad

definition num_step :: "num_state \<Rightarrow> char \<Rightarrow> num_next" where
  "num_step s c =
     (case s of
        stateNeg \<Rightarrow> (if c = CHR ''0'' then NumGo state0
                     else if is_digit19 c then NumGo state1 else NumBad)
      | state0 \<Rightarrow> (if c = CHR ''.'' then NumGo stateDot
                   else if c = CHR ''e'' \<or> c = CHR ''E'' then NumGo stateE else NumEnd)
      | state1 \<Rightarrow> (if is_digit c then NumGo state1
                   else if c = CHR ''.'' then NumGo stateDot
                   else if c = CHR ''e'' \<or> c = CHR ''E'' then NumGo stateE else NumEnd)
      | stateDot \<Rightarrow> (if is_digit c then NumGo stateDot0 else NumBad)
      | stateDot0 \<Rightarrow> (if is_digit c then NumGo stateDot0
                      else if c = CHR ''e'' \<or> c = CHR ''E'' then NumGo stateE else NumEnd)
      | stateE \<Rightarrow> (if c = CHR ''+'' \<or> c = CHR ''-'' then NumGo stateESign
                   else if is_digit c then NumGo stateE0 else NumBad)
      | stateESign \<Rightarrow> (if is_digit c then NumGo stateE0 else NumBad)
      | stateE0 \<Rightarrow> (if is_digit c then NumGo stateE0 else NumEnd))"

definition num_final :: "num_state \<Rightarrow> bool" where
  "num_final s = (s = state0 \<or> s = state1 \<or> s = stateDot0 \<or> s = stateE0)"

datatype lex_state =
    LBetween
  | LString bytes
  | LEscape bytes
  | LHex nat bytes
  | LNumber num_state bytes
  | LLiteral bytes json

text \<open>
  The text of a string or number is collected in reverse. \<open>begin_token\<close> reads a byte that
  stands between tokens or starts one.
\<close>

definition begin_token :: "char \<Rightarrow> token list \<Rightarrow> (lex_state \<times> token list) option" where
  "begin_token c acc =
     (if is_space c then Some (LBetween, acc)
      else if c = CHR ''{'' then Some (LBetween, TBeginObject # acc)
      else if c = CHR ''}'' then Some (LBetween, TEndObject # acc)
      else if c = CHR ''['' then Some (LBetween, TBeginArray # acc)
      else if c = CHR '']'' then Some (LBetween, TEndArray # acc)
      else if c = CHR '':'' then Some (LBetween, TColon # acc)
      else if c = CHR '','' then Some (LBetween, TComma # acc)
      else if c = dquote then Some (LString [], acc)
      else if c = CHR ''-'' then Some (LNumber stateNeg [c], acc)
      else if c = CHR ''0'' then Some (LNumber state0 [c], acc)
      else if is_digit19 c then Some (LNumber state1 [c], acc)
      else if c = CHR ''t'' then Some (LLiteral ''rue'' (JBool True), acc)
      else if c = CHR ''f'' then Some (LLiteral ''alse'' (JBool False), acc)
      else if c = CHR ''n'' then Some (LLiteral ''ull'' JNull, acc)
      else None)"

definition lex_step :: "lex_state \<times> token list \<Rightarrow> char \<Rightarrow> (lex_state \<times> token list) option" where
  "lex_step sa c =
     (case sa of (s, acc) \<Rightarrow>
        (case s of
           LBetween \<Rightarrow> begin_token c acc
         | LString raw \<Rightarrow>
             if c = dquote then Some (LBetween, TValue (JString (unquote (rev raw))) # acc)
             else if c = backslash then Some (LEscape (c # raw), acc)
             else if byte c < 32 then None
             else Some (LString (c # raw), acc)
         | LEscape raw \<Rightarrow>
             if c = CHR ''u'' then Some (LHex 4 (c # raw), acc)
             else if c = CHR ''b'' \<or> c = CHR ''f'' \<or> c = CHR ''n'' \<or> c = CHR ''r'' \<or> c = CHR ''t''
                     \<or> c = backslash \<or> c = CHR ''/'' \<or> c = dquote
             then Some (LString (c # raw), acc)
             else None
         | LHex n raw \<Rightarrow>
             if hex_val c = None then None
             else if n \<le> 1 then Some (LString (c # raw), acc)
             else Some (LHex (n - 1) (c # raw), acc)
         | LNumber ns raw \<Rightarrow>
             (case num_step ns c of
                NumGo ns' \<Rightarrow> Some (LNumber ns' (c # raw), acc)
              | NumEnd \<Rightarrow> begin_token c (TValue (JNumber (rev raw)) # acc)
              | NumBad \<Rightarrow> None)
         | LLiteral rest v \<Rightarrow>
             (case rest of
                [] \<Rightarrow> None
              | x # xs \<Rightarrow>
                  if c = x then (if xs = [] then Some (LBetween, TValue v # acc)
                                 else Some (LLiteral xs v, acc))
                  else None)))"

fun lex_all :: "lex_state \<times> token list \<Rightarrow> bytes \<Rightarrow> (lex_state \<times> token list) option" where
  "lex_all sa [] = Some sa"
| "lex_all sa (c # cs) = (case lex_step sa c of None \<Rightarrow> None | Some sa' \<Rightarrow> lex_all sa' cs)"

definition json_tokens :: "bytes \<Rightarrow> token list option" where
  "json_tokens data =
     (case lex_all (LBetween, []) data of
        None \<Rightarrow> None
      | Some (LBetween, acc) \<Rightarrow> Some (rev acc)
      | Some (LNumber ns raw, acc) \<Rightarrow>
          if num_final ns then Some (rev (TValue (JNumber (rev raw)) # acc)) else None
      | Some _ \<Rightarrow> None)"

subsection \<open>Documents\<close>

text \<open>
  The scanner's stack of open arrays and objects (\<^verbatim>\<open>parseState\<close>), here with the values read
  so far (in reverse) and, for an object, the key whose value is being read. The scanner
  refuses a nesting deeper than \<^verbatim>\<open>maxNestingDepth\<close>.
\<close>

datatype frame = InArray "json list" | InObject "(bytes \<times> json) list" "bytes option"

datatype parse_state =
    ExpectValue
  | ExpectValueOrEnd
  | ExpectKeyOrEnd
  | ExpectKey
  | ExpectColon
  | ExpectCommaOrEnd
  | EndTop json

definition maxNestingDepth :: int where
  "maxNestingDepth = 10000"

definition end_value :: "json \<Rightarrow> frame list \<Rightarrow> (parse_state \<times> frame list) option" where
  "end_value v stack =
     (case stack of
        [] \<Rightarrow> Some (EndTop v, [])
      | InArray vs # up \<Rightarrow> Some (ExpectCommaOrEnd, InArray (v # vs) # up)
      | InObject ms (Some k) # up \<Rightarrow> Some (ExpectCommaOrEnd, InObject ((k, v) # ms) None # up)
      | InObject ms None # up \<Rightarrow> None)"

definition begin_value :: "token \<Rightarrow> frame list \<Rightarrow> (parse_state \<times> frame list) option" where
  "begin_value t stack =
     (case t of
        TValue v \<Rightarrow> end_value v stack
      | TBeginArray \<Rightarrow>
          if int (length stack) < maxNestingDepth then Some (ExpectValueOrEnd, InArray [] # stack) else None
      | TBeginObject \<Rightarrow>
          if int (length stack) < maxNestingDepth then Some (ExpectKeyOrEnd, InObject [] None # stack) else None
      | _ \<Rightarrow> None)"

definition close_array :: "frame list \<Rightarrow> (parse_state \<times> frame list) option" where
  "close_array stack =
     (case stack of InArray vs # up \<Rightarrow> end_value (JArray (rev vs)) up | _ \<Rightarrow> None)"

definition close_object :: "frame list \<Rightarrow> (parse_state \<times> frame list) option" where
  "close_object stack =
     (case stack of InObject ms None # up \<Rightarrow> end_value (JObject (rev ms)) up | _ \<Rightarrow> None)"

definition read_key :: "token \<Rightarrow> frame list \<Rightarrow> (parse_state \<times> frame list) option" where
  "read_key t stack =
     (case (t, stack) of
        (TValue (JString k), InObject ms None # up) \<Rightarrow> Some (ExpectColon, InObject ms (Some k) # up)
      | _ \<Rightarrow> None)"

definition parse_step :: "parse_state \<times> frame list \<Rightarrow> token \<Rightarrow> (parse_state \<times> frame list) option" where
  "parse_step ps t =
     (case ps of (p, stack) \<Rightarrow>
        (case p of
           ExpectValue \<Rightarrow> begin_value t stack
         | ExpectValueOrEnd \<Rightarrow> (if t = TEndArray then close_array stack else begin_value t stack)
         | ExpectKeyOrEnd \<Rightarrow> (if t = TEndObject then close_object stack else read_key t stack)
         | ExpectKey \<Rightarrow> read_key t stack
         | ExpectColon \<Rightarrow> (if t = TColon then Some (ExpectValue, stack) else None)
         | ExpectCommaOrEnd \<Rightarrow>
             (case stack of
                InArray vs # up \<Rightarrow>
                  if t = TComma then Some (ExpectValue, stack)
                  else if t = TEndArray then close_array stack else None
              | InObject ms k # up \<Rightarrow>
                  if t = TComma then Some (ExpectKey, stack)
                  else if t = TEndObject then close_object stack else None
              | [] \<Rightarrow> None)
         | EndTop v \<Rightarrow> None))"

fun parse_all :: "parse_state \<times> frame list \<Rightarrow> token list \<Rightarrow> (parse_state \<times> frame list) option" where
  "parse_all ps [] = Some ps"
| "parse_all ps (t # ts) = (case parse_step ps t of None \<Rightarrow> None | Some ps' \<Rightarrow> parse_all ps' ts)"

definition json_scan :: "bytes \<Rightarrow> json option" where
  "json_scan data =
     (case json_tokens data of
        None \<Rightarrow> None
      | Some ts \<Rightarrow>
          (case parse_all (ExpectValue, []) ts of
             Some (EndTop v, _) \<Rightarrow> Some v
           | _ \<Rightarrow> None))"

section \<open>Storing a document into the program's structs\<close>

text \<open>
  \<^verbatim>\<open>RequestPayload\<close> and \<^verbatim>\<open>OllamaResponseMetrics\<close> of main.go. The pointer fields
  \<^verbatim>\<open>*bool\<close> and \<^verbatim>\<open>*int64\<close> are options (\<open>None\<close> is \<^verbatim>\<open>nil\<close>); an \<^verbatim>\<open>int64\<close> is a 64-bit
  word read as two's complement.
\<close>

type_synonym int64 = "64 word"

record RequestPayload =
  Model :: string
  Stream :: "bool option"

record OllamaResponseMetrics =
  EvalCount :: "int64 option"
  PromptEvalCount :: "int64 option"

datatype error =
    SyntaxError
  | UnmarshalTypeError string string
  | ErrorString string

text \<open>
  A member's key is matched with a field's tag exactly or, failing that, after case
  folding (\<^verbatim>\<open>foldName\<close>). Besides the ASCII letters, the only runes folding to an ASCII
  letter are U+017F (to S) and U+212A (to K); the other runes fold among themselves, so
  they are left as they are: the tags here are ASCII.
\<close>

fun foldName :: "bytes \<Rightarrow> bytes" where
  "foldName [] = []"
| "foldName (c # cs) =
     (if 97 \<le> byte c \<and> byte c \<le> 122 then char_of (byte c - 32) # foldName cs
      else if c = CHR 0xC5 \<and> take 1 cs = [CHR 0xBF] then CHR ''S'' # foldName (drop 1 cs)
      else if c = CHR 0xE2 \<and> take 2 cs = [CHR 0x84, CHR 0xAA] then CHR ''K'' # foldName (drop 2 cs)
      else c # foldName cs)"

declare foldName.simps [simp del]

definition names_field :: "bytes \<Rightarrow> string \<Rightarrow> bool" where
  "names_field key tag = (key = tag \<or> foldName key = foldName tag)"

text \<open>\<^verbatim>\<open>strconv.ParseInt(s, 10, 64)\<close>.\<close>

fun digits_value :: "int \<Rightarrow> bytes \<Rightarrow> int option" where
  "digits_value n [] = Some n"
| "digits_value n (c # cs) =
     (if is_digit c then digits_value (10 * n + (int (byte c) - 48)) cs else None)"

definition ParseInt :: "bytes \<Rightarrow> int option" where
  "ParseInt s =
     (let neg = (take 1 s = ''-'');
          ds = (if take 1 s = ''-'' \<or> take 1 s = ''+'' then drop 1 s else s)
      in if ds = [] then None
         else (case digits_value 0 ds of
                 None \<Rightarrow> None
               | Some n \<Rightarrow>
                   if neg then (if n \<le> 2 ^ 63 then Some (- n) else None)
                   else (if n < 2 ^ 63 then Some n else None)))"

definition json_kind :: "json \<Rightarrow> string" where
  "json_kind v =
     (case v of
        JNull \<Rightarrow> ''null'' | JBool b \<Rightarrow> ''bool'' | JNumber n \<Rightarrow> ''number''
      | JString s \<Rightarrow> ''string'' | JArray vs \<Rightarrow> ''array'' | JObject ms \<Rightarrow> ''object'')"

text \<open>
  Storing one value into a field (\<^verbatim>\<open>decodeState.value\<close>, with \<^verbatim>\<open>literalStore\<close>, \<^verbatim>\<open>object\<close>
  and \<^verbatim>\<open>array\<close>). Each returns the field's new content and the error it saves, if any.
  A value of the wrong kind saves an \<^verbatim>\<open>UnmarshalTypeError\<close> and decoding goes on.
  \<^item> Into a \<^verbatim>\<open>string\<close>: a string is stored; \<^verbatim>\<open>null\<close> leaves the field alone.
  \<^item> Into a pointer: \<^verbatim>\<open>null\<close> sets the pointer to \<^verbatim>\<open>nil\<close>. For any other value
    \<^verbatim>\<open>indirect\<close> ("walks down v allocating pointers as needed") first makes a \<^verbatim>\<open>nil\<close>
    pointer point to a new zero value, and only then is the value's kind checked against
    the pointed-to type. So a value of the wrong kind leaves the pointer allocated:
    pointing to the zero value if it was \<^verbatim>\<open>nil\<close>, to its old target otherwise.
\<close>

definition store_string :: "string \<Rightarrow> json \<Rightarrow> string \<Rightarrow> string \<times> error option" where
  "store_string field v old =
     (case v of
        JString s \<Rightarrow> (s, None)
      | JNull \<Rightarrow> (old, None)
      | _ \<Rightarrow> (old, Some (UnmarshalTypeError (json_kind v) field)))"

definition store_bool_ptr :: "string \<Rightarrow> json \<Rightarrow> bool option \<Rightarrow> bool option \<times> error option" where
  "store_bool_ptr field v old =
     (case v of
        JNull \<Rightarrow> (None, None)
      | JBool b \<Rightarrow> (Some b, None)
      | _ \<Rightarrow> (Some (case old of None \<Rightarrow> False | Some b \<Rightarrow> b),
              Some (UnmarshalTypeError (json_kind v) field)))"

definition store_int64_ptr :: "string \<Rightarrow> json \<Rightarrow> int64 option \<Rightarrow> int64 option \<times> error option" where
  "store_int64_ptr field v old =
     (case v of
        JNull \<Rightarrow> (None, None)
      | JNumber lit \<Rightarrow>
          (case ParseInt lit of
             Some n \<Rightarrow> (Some (word_of_int n), None)
           | None \<Rightarrow> (Some (case old of None \<Rightarrow> 0 | Some x \<Rightarrow> x),
                      Some (UnmarshalTypeError (''number '' @ lit) field)))
      | _ \<Rightarrow> (Some (case old of None \<Rightarrow> 0 | Some x \<Rightarrow> x),
              Some (UnmarshalTypeError (json_kind v) field)))"

text \<open>\<^verbatim>\<open>saveError\<close> keeps the first error.\<close>

definition saveError :: "error option \<Rightarrow> error option \<Rightarrow> error option" where
  "saveError saved e = (case saved of None \<Rightarrow> e | Some x \<Rightarrow> Some x)"

definition member_RequestPayload ::
  "bytes \<times> json \<Rightarrow> RequestPayload \<times> error option \<Rightarrow> RequestPayload \<times> error option" where
  "member_RequestPayload m acc =
     (case (m, acc) of ((key, v), (p, saved)) \<Rightarrow>
        if names_field key ''model'' then
          (case store_string ''model'' v (Model p) of (x, e) \<Rightarrow> (p\<lparr>Model := x\<rparr>, saveError saved e))
        else if names_field key ''stream'' then
          (case store_bool_ptr ''stream'' v (Stream p) of (x, e) \<Rightarrow> (p\<lparr>Stream := x\<rparr>, saveError saved e))
        else (p, saved))"

definition member_OllamaResponseMetrics ::
  "bytes \<times> json \<Rightarrow> OllamaResponseMetrics \<times> error option \<Rightarrow> OllamaResponseMetrics \<times> error option" where
  "member_OllamaResponseMetrics m acc =
     (case (m, acc) of ((key, v), (p, saved)) \<Rightarrow>
        if names_field key ''eval_count'' then
          (case store_int64_ptr ''eval_count'' v (EvalCount p) of
             (x, e) \<Rightarrow> (p\<lparr>EvalCount := x\<rparr>, saveError saved e))
        else if names_field key ''prompt_eval_count'' then
          (case store_int64_ptr ''prompt_eval_count'' v (PromptEvalCount p) of
             (x, e) \<Rightarrow> (p\<lparr>PromptEvalCount := x\<rparr>, saveError saved e))
        else (p, saved))"

text \<open>
  \<^verbatim>\<open>json.Unmarshal(data, &v)\<close> for the two struct types: the struct after the call and the
  error returned. A syntax error stores nothing. The members of an object are stored in
  input order; a member that names no field is skipped. \<^verbatim>\<open>null\<close> at the top stores nothing
  and is no error; any other document that is not an object is an \<^verbatim>\<open>UnmarshalTypeError\<close>.
\<close>

definition Unmarshal_RequestPayload :: "bytes \<Rightarrow> RequestPayload \<Rightarrow> RequestPayload \<times> error option" where
  "Unmarshal_RequestPayload data v =
     (case json_scan data of
        None \<Rightarrow> (v, Some SyntaxError)
      | Some (JObject ms) \<Rightarrow> fold member_RequestPayload ms (v, None)
      | Some JNull \<Rightarrow> (v, None)
      | Some d \<Rightarrow> (v, Some (UnmarshalTypeError (json_kind d) '''')))"

definition Unmarshal_OllamaResponseMetrics ::
  "bytes \<Rightarrow> OllamaResponseMetrics \<Rightarrow> OllamaResponseMetrics \<times> error option" where
  "Unmarshal_OllamaResponseMetrics data v =
     (case json_scan data of
        None \<Rightarrow> (v, Some SyntaxError)
      | Some (JObject ms) \<Rightarrow> fold member_OllamaResponseMetrics ms (v, None)
      | Some JNull \<Rightarrow> (v, None)
      | Some d \<Rightarrow> (v, Some (UnmarshalTypeError (json_kind d) '''')))"

section \<open>What the handler calls: readers, the response writer, the metrics\<close>

subsection \<open>Readers\<close>

text \<open>
  An \<^verbatim>\<open>io.Reader\<close> is given by what its \<^verbatim>\<open>Read\<close> calls return: some chunks of data, and
  then \<^verbatim>\<open>io.EOF\<close> (\<open>None\<close>) or an error. \<^verbatim>\<open>io.ReadAll\<close> returns the data read and that error.
\<close>

datatype Reader = Reader (chunks: "bytes list") (failure: "error option")

definition ReadAll :: "Reader \<Rightarrow> bytes \<times> error option" where
  "ReadAll rd = (concat (chunks rd), failure rd)"

subsection \<open>Requests and responses\<close>

text \<open>An \<^verbatim>\<open>http.Header\<close> maps a (canonical) key to its values; no values: the key is absent.\<close>

type_synonym Header = "string \<Rightarrow> string list"

definition Header_Get :: "Header \<Rightarrow> string \<Rightarrow> string" where
  "Header_Get h key = (case h key of [] \<Rightarrow> '''' | v # _ \<Rightarrow> v)"

text \<open>The two nested loops that \<^verbatim>\<open>Add\<close> every value of every key of \<open>src\<close> to \<open>dst\<close>.\<close>

definition Header_AddAll :: "Header \<Rightarrow> Header \<Rightarrow> Header" where
  "Header_AddAll src dst = (\<lambda>key. dst key @ src key)"

record URL =
  Host :: string
  Path :: string
  RawQuery :: string

record Request =
  Method :: string
  URL :: URL
  Header :: Header
  Body :: "Reader option"

record Response =
  StatusCode :: int
  RespHeader :: Header
  RespBody :: Reader

subsection \<open>The response writer\<close>

text \<open>
  An \<^verbatim>\<open>http.ResponseWriter\<close>: the header map, the status line sent (\<open>None\<close> until
  \<^verbatim>\<open>WriteHeader\<close> has sent one), the informational status lines sent before it, and the
  body bytes written to the client. \<open>room\<close> is how many more body bytes the connection takes
  before a \<^verbatim>\<open>Write\<close> fails (\<open>None\<close>: it takes all), so that a client that goes away is an
  input like any other.
\<close>

record ResponseWriter =
  header :: Header
  status :: "int option"
  informational :: "int list"
  sent :: bytes
  room :: "nat option"

text \<open>
  \<^verbatim>\<open>WriteHeader\<close>: a second call is ignored; a code outside 100..999 panics
  (\<^verbatim>\<open>checkWriteHeaderCode\<close>); a 1xx code other than 101 is sent as an informational
  response and the final status is still to come.
\<close>

definition WriteHeader :: "int \<Rightarrow> ResponseWriter \<Rightarrow> string + ResponseWriter" where
  "WriteHeader code rw =
     (if status rw = None then
        (if code < 100 \<or> 999 < code then Inl ''invalid WriteHeader code''
         else if 100 \<le> code \<and> code \<le> 199 \<and> code \<noteq> 101
         then Inr (rw\<lparr>informational := informational rw @ [code]\<rparr>)
         else Inr (rw\<lparr>status := Some code\<rparr>))
      else Inr rw)"

text \<open>
  \<^verbatim>\<open>Write\<close> sends status 200 first if no status was sent, then writes as much of the data
  as the connection takes. It returns the number of bytes written, with an error when
  that is less than it was given.
\<close>

definition Write :: "bytes \<Rightarrow> ResponseWriter \<Rightarrow> (nat \<times> error option) \<times> ResponseWriter" where
  "Write p rw =
     (let rw1 = (if status rw = None then rw\<lparr>status := Some 200\<rparr> else rw)
      in case room rw1 of
           None \<Rightarrow> ((length p, None), rw1\<lparr>sent := sent rw1 @ p\<rparr>)
         | Some k \<Rightarrow>
             if length p \<le> k
             then ((length p, None), rw1\<lparr>sent := sent rw1 @ p, room := Some (k - length p)\<rparr>)
             else ((k, Some (ErrorString ''write: connection closed'')),
                   rw1\<lparr>sent := sent rw1 @ take k p, room := Some 0\<rparr>))"

text \<open>
  \<^verbatim>\<open>io.Copy(w, src)\<close>: every chunk read is written; the loop stops at the first write error,
  or when the reader ends (at \<^verbatim>\<open>io.EOF\<close> the error returned is \<^verbatim>\<open>nil\<close>). It returns the number
  of bytes written.
\<close>

fun Copy_loop ::
  "ResponseWriter \<Rightarrow> bytes list \<Rightarrow> error option \<Rightarrow> nat \<Rightarrow> (nat \<times> error option) \<times> ResponseWriter" where
  "Copy_loop rw [] er written = ((written, er), rw)"
| "Copy_loop rw (buf # rest) er written =
     (if buf = [] then Copy_loop rw rest er written
      else (case Write buf rw of
              ((nw, ew), rw') \<Rightarrow>
                if ew = None then Copy_loop rw' rest er (written + nw)
                else ((written + nw, ew), rw')))"

definition Copy :: "ResponseWriter \<Rightarrow> Reader \<Rightarrow> (nat \<times> error option) \<times> ResponseWriter" where
  "Copy rw src = Copy_loop rw (chunks src) (failure src) 0"

subsection \<open>The metrics\<close>

text \<open>
  The six series that main.go registers. What the handler does to them is kept as the list
  of the calls that went through, oldest first, each with its label values.
  \<^verbatim>\<open>Add(float64(n))\<close> is recorded with the value of \<^verbatim>\<open>float64(n)\<close>, which is an integer
  (\<open>float64\<close> below), \<^verbatim>\<open>Observe\<close> with the duration in nanoseconds.
\<close>

datatype series = reqTotal | reqDuration | bytesIn | bytesOut | tokensIn | tokensOut

datatype metric_op =
    Inc series "string list"
  | Add series "string list" int
  | Observe series "string list" int

fun series_of :: "metric_op \<Rightarrow> series" where
  "series_of (Inc s lvs) = s"
| "series_of (Add s lvs v) = s"
| "series_of (Observe s lvs d) = s"

text \<open>The calls on one series, and the total a counter series was increased by.\<close>

definition calls_on :: "series \<Rightarrow> metric_op list \<Rightarrow> metric_op list" where
  "calls_on s ops = filter (\<lambda>x. series_of x = s) ops"

fun amount :: "metric_op \<Rightarrow> int" where
  "amount (Inc s lvs) = 1"
| "amount (Add s lvs v) = v"
| "amount (Observe s lvs d) = 0"

definition added_to :: "series \<Rightarrow> metric_op list \<Rightarrow> int" where
  "added_to s ops = sum_list (map amount (calls_on s ops))"

subsection \<open>The state of one call of the handler\<close>

text \<open>
  What a call of the handler changes: the metrics, the response writer, the requests
  handed to \<^verbatim>\<open>httpClient.Do\<close>, the log. A step either goes on or panics; the state at a
  panic is the state before the call that panicked.
\<close>

record State =
  metrics :: "metric_op list"
  writer :: ResponseWriter
  upstream :: "Request list"
  logged :: "string list"

datatype result = Ok State | Panic string State

fun final :: "result \<Rightarrow> State" where
  "final (Ok st) = st"
| "final (Panic p st) = st"

fun panicked :: "result \<Rightarrow> bool" where
  "panicked (Ok st) = False"
| "panicked (Panic p st) = True"

definition and_then :: "result \<Rightarrow> (State \<Rightarrow> result) \<Rightarrow> result" where
  "and_then x f = (case x of Ok st \<Rightarrow> f st | Panic p st \<Rightarrow> Panic p st)"

definition logf :: "string \<Rightarrow> State \<Rightarrow> State" where
  "logf msg st = st\<lparr>logged := logged st @ [msg]\<rparr>"

text \<open>
  \<^verbatim>\<open>utf8.ValidString\<close>: the string is a sequence of well-formed UTF-8 sequences. The first
  argument of \<open>valid_utf8\<close> counts the bytes still to skip of the sequence just checked.
\<close>

fun valid_utf8 :: "nat \<Rightarrow> bytes \<Rightarrow> bool" where
  "valid_utf8 k [] = (k = 0)"
| "valid_utf8 k (c # cs) =
     (if k = 0 then (let n = utf8_len (c # cs) in n \<noteq> 0 \<and> valid_utf8 (n - 1) cs)
      else valid_utf8 (k - 1) cs)"

definition ValidString :: "string \<Rightarrow> bool" where
  "ValidString s = valid_utf8 0 s"

text \<open>
  \<^verbatim>\<open>float64(n)\<close> for an integer \<open>n\<close>: \<open>n\<close> rounded to 53 significant bits, to the nearest
  value, a tie to the even one. \<open>bits_dropped a\<close> is the number of low bits of \<open>a\<close> that do
  not fit; it is 0 below \<open>2 ^ 53\<close>, where the conversion is exact.
\<close>

function bits_dropped :: "int \<Rightarrow> nat" where
  "bits_dropped a = (if a < 2 ^ 53 then 0 else Suc (bits_dropped (a div 2)))"
  by pat_completeness auto
termination
  by (relation "measure nat") auto

declare bits_dropped.simps [simp del]

definition round53 :: "int \<Rightarrow> int" where
  "round53 a =
     (let e = bits_dropped a;
          q = a div 2 ^ e;
          r = a mod 2 ^ e
      in (if 2 ^ e < 2 * r \<or> (2 * r = 2 ^ e \<and> odd q) then q + 1 else q) * 2 ^ e)"

definition float64 :: "int \<Rightarrow> int" where
  "float64 n = (if n < 0 then - round53 (- n) else round53 n)"

text \<open>
  \<^verbatim>\<open>WithLabelValues\<close> panics when a label value is not valid UTF-8 (the number of values
  is the number of labels of the series everywhere in main.go). \<^verbatim>\<open>Counter.Add\<close> panics on
  a negative value.
\<close>

definition WithLabelValues :: "string list \<Rightarrow> State \<Rightarrow> result" where
  "WithLabelValues lvs st =
     (if list_all ValidString lvs then Ok st
      else Panic ''label value is not valid UTF-8'' st)"

definition Counter_Add :: "series \<Rightarrow> string list \<Rightarrow> int \<Rightarrow> State \<Rightarrow> result" where
  "Counter_Add s lvs v st =
     and_then (WithLabelValues lvs st)
       (\<lambda>st. if v < 0 then Panic ''counter cannot decrease in value'' st
              else Ok (st\<lparr>metrics := metrics st @ [Add s lvs v]\<rparr>))"

definition Counter_Inc :: "series \<Rightarrow> string list \<Rightarrow> State \<Rightarrow> result" where
  "Counter_Inc s lvs st =
     and_then (WithLabelValues lvs st) (\<lambda>st. Ok (st\<lparr>metrics := metrics st @ [Inc s lvs]\<rparr>))"

definition Histogram_Observe :: "series \<Rightarrow> string list \<Rightarrow> int \<Rightarrow> State \<Rightarrow> result" where
  "Histogram_Observe s lvs d st =
     and_then (WithLabelValues lvs st)
       (\<lambda>st. Ok (st\<lparr>metrics := metrics st @ [Observe s lvs d]\<rparr>))"

definition w_WriteHeader :: "int \<Rightarrow> State \<Rightarrow> result" where
  "w_WriteHeader code st =
     (case WriteHeader code (writer st) of
        Inl p \<Rightarrow> Panic p st
      | Inr rw \<Rightarrow> Ok (st\<lparr>writer := rw\<rparr>))"

definition w_Write :: "bytes \<Rightarrow> State \<Rightarrow> (nat \<times> error option) \<times> State" where
  "w_Write p st = (case Write p (writer st) of (ne, rw) \<Rightarrow> (ne, st\<lparr>writer := rw\<rparr>))"

text \<open>
  \<^verbatim>\<open>http.Error(w, msg, code)\<close>: plain-text headers, the status, the message and a newline.
\<close>

definition http_Error :: "string \<Rightarrow> int \<Rightarrow> State \<Rightarrow> result" where
  "http_Error msg code st =
     (let h = (header (writer st))
                (''Content-Length'' := [],
                 ''Content-Type'' := [''text/plain; charset=utf-8''],
                 ''X-Content-Type-Options'' := [''nosniff''])
      in and_then (w_WriteHeader code (st\<lparr>writer := (writer st)\<lparr>header := h\<rparr>\<rparr>))
           (\<lambda>st1. Ok (snd (w_Write (msg @ [CHR 0x0A]) st1))))"

text \<open>\<^verbatim>\<open>strconv.Itoa\<close> and \<^verbatim>\<open>strings.TrimRight\<close>.\<close>

fun nat_digits :: "nat \<Rightarrow> string" where
  "nat_digits n =
     (if n < 10 then [char_of (48 + n)] else nat_digits (n div 10) @ [char_of (48 + n mod 10)])"

declare nat_digits.simps [simp del]

definition Itoa :: "int \<Rightarrow> string" where
  "Itoa i = (if i < 0 then CHR ''-'' # nat_digits (nat (- i)) else nat_digits (nat i))"

definition TrimRight :: "string \<Rightarrow> string \<Rightarrow> string" where
  "TrimRight s cutset = rev (dropWhile (\<lambda>c. c \<in> set cutset) (rev s))"

section \<open>The handler\<close>

text \<open>
  What a call of \<^verbatim>\<open>proxyHandler\<close> gets from outside: the package variables
  \<^verbatim>\<open>upstreamURL\<close> and \<^verbatim>\<open>httpClient\<close> (\<open>Do\<close> is what \<^verbatim>\<open>httpClient.Do\<close> returns for a
  request: an error or a response), the error of \<^verbatim>\<open>http.NewRequestWithContext\<close> if it
  returns one (its checks of the method and the URL are not modelled), and the clock:
  \<open>Since\<close> is what \<^verbatim>\<open>time.Since(start)\<close> returns, in nanoseconds, where the handler
  calls it.
\<close>

record Env =
  upstreamURL :: URL
  NewRequest_error :: "error option"
  Do :: "Request \<Rightarrow> error + Response"
  Since :: int

text \<open>Lines 138 to 148: the whole request body, or the error of reading it.\<close>

definition read_body :: "Request \<Rightarrow> error + bytes" where
  "read_body r =
     (case Body r of
        None \<Rightarrow> Inr []
      | Some rd \<Rightarrow> (case ReadAll rd of (b, None) \<Rightarrow> Inr b | (b, Some err) \<Rightarrow> Inl err))"

text \<open>Lines 150 to 166: the payload, best effort (the error is dropped), and the labels.\<close>

definition payload_of :: "bytes \<Rightarrow> RequestPayload" where
  "payload_of bodyBuf = fst (Unmarshal_RequestPayload bodyBuf \<lparr>Model = '''', Stream = None\<rparr>)"

definition model_of :: "RequestPayload \<Rightarrow> string" where
  "model_of payload = (if Model payload = '''' then ''unknown'' else Model payload)"

definition stream_of :: "RequestPayload \<Rightarrow> bool" where
  "stream_of payload = (case Stream payload of None \<Rightarrow> True | Some b \<Rightarrow> b)"

definition streamLabel_of :: "bool \<Rightarrow> string" where
  "streamLabel_of stream = (if \<not> stream then ''false'' else ''true'')"

text \<open>Lines 170 to 190: the upstream request.\<close>

definition upstream_request :: "Env \<Rightarrow> Request \<Rightarrow> bytes \<Rightarrow> error + Request" where
  "upstream_request env r bodyBuf =
     (let up = (upstreamURL env)
                 \<lparr>Path := TrimRight (Path (upstreamURL env)) ''/'' @ Path (URL r),
                  RawQuery := RawQuery (URL r)\<rparr>
      in case NewRequest_error env of
           Some err \<Rightarrow> Inl err
         | None \<Rightarrow>
             (let h = Header_AddAll (Header r) (\<lambda>key. []);
                  h' = (if Header_Get h ''Content-Type'' = ''''
                        then h(''Content-Type'' := [''application/json'']) else h)
              in Inr \<lparr>Method = Method r, URL = up, Header = h', Body = Some (Reader [bodyBuf] None)\<rparr>))"

text \<open>Lines 216 to 247: buffered mode. First lines 226 to 235, the token metrics.\<close>

definition token_metrics :: "string \<Rightarrow> string \<Rightarrow> bytes \<Rightarrow> State \<Rightarrow> result" where
  "token_metrics endpoint model respBuf st =
     (case Unmarshal_OllamaResponseMetrics respBuf \<lparr>EvalCount = None, PromptEvalCount = None\<rparr> of
        (m, err) \<Rightarrow>
          if err = None then
            and_then
              (case PromptEvalCount m of
                 None \<Rightarrow> Ok st
               | Some p \<Rightarrow> Counter_Add tokensIn [endpoint, model] (float64 (sint p)) st)
              (\<lambda>st1. case EvalCount m of
                        None \<Rightarrow> Ok st1
                      | Some e \<Rightarrow> Counter_Add tokensOut [endpoint, model] (float64 (sint e)) st1)
          else Ok st)"

definition relay_buffered ::
  "Env \<Rightarrow> string \<Rightarrow> string \<Rightarrow> string \<Rightarrow> string \<Rightarrow> Response \<Rightarrow> State \<Rightarrow> result" where
  "relay_buffered env endpoint model statusLabel streamLabel resp st =
     (case ReadAll (RespBody resp) of
        (respBuf, Some err) \<Rightarrow> Ok (logf ''failed to read upstream response body'' st)
      | (respBuf, None) \<Rightarrow>
          and_then
            (Counter_Add bytesOut [endpoint, model, streamLabel] (float64 (int (length respBuf))) st)
            (\<lambda>st1. and_then (token_metrics endpoint model respBuf st1)
               (\<lambda>st2. case w_Write respBuf st2 of
                         ((n, werr), st3) \<Rightarrow>
                           (let st4 = (if werr = None then st3
                                       else logf ''failed to write response body to client'' st3);
                                duration = Since env
                            in and_then
                                 (Counter_Inc reqTotal [endpoint, model, statusLabel, streamLabel] st4)
                                 (Histogram_Observe reqDuration [endpoint, model, streamLabel]
                                    duration)))))"

text \<open>Lines 249 to 259: streaming mode.\<close>

definition relay_streaming ::
  "Env \<Rightarrow> string \<Rightarrow> string \<Rightarrow> string \<Rightarrow> string \<Rightarrow> Response \<Rightarrow> State \<Rightarrow> result" where
  "relay_streaming env endpoint model statusLabel streamLabel resp st =
     (case Copy (writer st) (RespBody resp) of
        ((n, err), rw) \<Rightarrow>
          (let st1 = st\<lparr>writer := rw\<rparr>;
               st2 = (if err = None then st1 else logf ''streaming response to client failed'' st1)
           in and_then (Counter_Add bytesOut [endpoint, model, streamLabel] (float64 (int n)) st2)
                (\<lambda>st3. let duration = Since env
                        in and_then
                             (Counter_Inc reqTotal [endpoint, model, statusLabel, streamLabel] st3)
                             (Histogram_Observe reqDuration [endpoint, model, streamLabel]
                                duration))))"

text \<open>Lines 170 to 259: everything after the request-bytes counter.\<close>

definition forward ::
  "Env \<Rightarrow> Request \<Rightarrow> string \<Rightarrow> string \<Rightarrow> bool \<Rightarrow> string \<Rightarrow> bytes \<Rightarrow> State \<Rightarrow> result" where
  "forward env r endpoint model stream streamLabel bodyBuf st =
     (case upstream_request env r bodyBuf of
        Inl err \<Rightarrow> http_Error ''failed to create upstream request'' 500 st
      | Inr upReq \<Rightarrow>
          (let st1 = st\<lparr>upstream := upstream st @ [upReq]\<rparr>
           in case Do env upReq of
                Inl err \<Rightarrow>
                  (let st2 = logf ''upstream error'' st1;
                       statusCode = 502;
                       statusLabel = Itoa statusCode
                   in and_then
                        (Counter_Inc reqTotal [endpoint, model, statusLabel, streamLabel] st2)
                        (\<lambda>st3. and_then
                                  (Histogram_Observe reqDuration [endpoint, model, streamLabel]
                                     (Since env) st3)
                                  (http_Error ''upstream error'' statusCode)))
              | Inr resp \<Rightarrow>
                  (let statusLabel = Itoa (StatusCode resp);
                       st2 = st1\<lparr>writer := (writer st1)
                               \<lparr>header := Header_AddAll (RespHeader resp) (header (writer st1))\<rparr>\<rparr>
                   in and_then (w_WriteHeader (StatusCode resp) st2)
                        (\<lambda>st3. if \<not> stream
                                then relay_buffered env endpoint model statusLabel streamLabel resp st3
                                else relay_streaming env endpoint model statusLabel streamLabel resp st3))))"

text \<open>
  \<^verbatim>\<open>proxyHandler(w, r)\<close>. The result holds the metric calls of this request, the response
  writer as the handler leaves it, and the upstream calls made.
\<close>

definition proxyHandler :: "Env \<Rightarrow> ResponseWriter \<Rightarrow> Request \<Rightarrow> result" where
  "proxyHandler env rw r =
     (let st0 = \<lparr>metrics = [], writer = rw, upstream = [], logged = []\<rparr>;
          endpoint = Path (URL r)
      in case read_body r of
           Inl err \<Rightarrow> http_Error ''failed to read request body'' 400 st0
         | Inr bodyBuf \<Rightarrow>
             (let payload = payload_of bodyBuf;
                  model = model_of payload;
                  stream = stream_of payload;
                  streamLabel = streamLabel_of stream
              in and_then
                   (Counter_Add bytesIn [endpoint, model, streamLabel]
                      (float64 (int (length bodyBuf))) st0)
                   (forward env r endpoint model stream streamLabel bodyBuf)))"

text \<open>A response writer as the server hands it to the handler.\<close>

definition new_writer :: "nat option \<Rightarrow> ResponseWriter" where
  "new_writer k = \<lparr>header = (\<lambda>key. []), status = None, informational = [], sent = [], room = k\<rparr>"

section \<open>What a body says\<close>

text \<open>
  The words the properties need about a JSON body, defined on the document and not on
  the decoder. \<open>string_values tag ms\<close> are the strings carried by the members of an object
  that name the field \<open>tag\<close>, in input order; \<open>field_values tag ms\<close> are all the values of
  those members. An integer field is a number literal that \<^verbatim>\<open>strconv.ParseInt\<close> reads as
  an \<^verbatim>\<open>int64\<close>; a token count is such a literal that is not negative, and an exact count
  is a token count below \<open>2 ^ 53\<close>, which \<^verbatim>\<open>float64\<close> holds as it is. When a field occurs
  more than once the last occurrence counts.
\<close>

fun string_values :: "string \<Rightarrow> (bytes \<times> json) list \<Rightarrow> string list" where
  "string_values tag [] = []"
| "string_values tag ((key, v) # ms) =
     (case v of JString s \<Rightarrow> (if names_field key tag then [s] else []) | _ \<Rightarrow> [])
     @ string_values tag ms"

definition model_strings :: "bytes \<Rightarrow> string list" where
  "model_strings bodyBuf =
     (case json_scan bodyBuf of Some (JObject ms) \<Rightarrow> string_values ''model'' ms | _ \<Rightarrow> [])"

fun field_values :: "string \<Rightarrow> (bytes \<times> json) list \<Rightarrow> json list" where
  "field_values tag [] = []"
| "field_values tag ((key, v) # ms) =
     (if names_field key tag then [v] else []) @ field_values tag ms"

definition int64_literal :: "json \<Rightarrow> bool" where
  "int64_literal v =
     (case v of JNumber lit \<Rightarrow> (case ParseInt lit of Some n \<Rightarrow> True | None \<Rightarrow> False)
              | _ \<Rightarrow> False)"

definition int64_value :: "json \<Rightarrow> int" where
  "int64_value v =
     (case v of JNumber lit \<Rightarrow> (case ParseInt lit of Some n \<Rightarrow> n | None \<Rightarrow> 0) | _ \<Rightarrow> 0)"

definition token_count :: "json \<Rightarrow> bool" where
  "token_count v = (int64_literal v \<and> 0 \<le> int64_value v)"

definition exact_count :: "json \<Rightarrow> bool" where
  "exact_count v = (token_count v \<and> int64_value v < 2 ^ 53)"

definition count_field :: "string \<Rightarrow> (bytes \<times> json) list \<Rightarrow> int option" where
  "count_field tag ms =
     (if field_values tag ms = [] then None else Some (int64_value (last (field_values tag ms))))"

text \<open>The calls on the two token counters that a decoded upstream body stands for.\<close>

definition token_ops :: "string \<Rightarrow> string \<Rightarrow> OllamaResponseMetrics \<Rightarrow> metric_op list" where
  "token_ops endpoint model m =
     (case PromptEvalCount m of
        None \<Rightarrow> []
      | Some p \<Rightarrow> [Add tokensIn [endpoint, model] (float64 (sint p))])
     @ (case EvalCount m of
          None \<Rightarrow> []
        | Some e \<Rightarrow> [Add tokensOut [endpoint, model] (float64 (sint e))])"

text \<open>A connection with room \<open>k\<close> takes the whole of \<open>p\<close>.\<close>

definition takes_all :: "nat option \<Rightarrow> bytes \<Rightarrow> bool" where
  "takes_all k p = (case k of None \<Rightarrow> True | Some n \<Rightarrow> length p \<le> n)"

section \<open>Well-formed strings in a document\<close>

text \<open>
  Predicates for showing that every string \<^verbatim>\<open>encoding/json\<close> hands to the program is valid
  UTF-8, so that the model label is one \<^verbatim>\<open>WithLabelValues\<close> accepts. \<open>seq2\<close>, \<open>seq3\<close> and
  \<open>seq4\<close> are the well-formed sequences of two, three and four bytes. A text between
  quotes is well escaped when every backslash in escape position is followed by an ASCII
  byte; the scanner accepts no other. The invariants say that the scanner's states hold
  well-escaped text and that the tokens and the members of the open objects hold valid
  strings.
\<close>

definition seq2 :: "char \<Rightarrow> char \<Rightarrow> bool" where
  "seq2 b0 b1 = (194 \<le> byte b0 \<and> byte b0 \<le> 223 \<and> is_cont b1)"

definition seq3 :: "char \<Rightarrow> char \<Rightarrow> char \<Rightarrow> bool" where
  "seq3 b0 b1 b2 =
     (224 \<le> byte b0 \<and> byte b0 \<le> 239 \<and>
      (if byte b0 = 224 then 160 \<le> byte b1 \<and> byte b1 \<le> 191
       else if byte b0 = 237 then 128 \<le> byte b1 \<and> byte b1 \<le> 159
       else is_cont b1) \<and> is_cont b2)"

definition seq4 :: "char \<Rightarrow> char \<Rightarrow> char \<Rightarrow> char \<Rightarrow> bool" where
  "seq4 b0 b1 b2 b3 =
     (240 \<le> byte b0 \<and> byte b0 \<le> 244 \<and>
      (if byte b0 = 240 then 144 \<le> byte b1 \<and> byte b1 \<le> 191
       else if byte b0 = 244 then 128 \<le> byte b1 \<and> byte b1 \<le> 143
       else is_cont b1) \<and> is_cont b2 \<and> is_cont b3)"

fun well_escaped :: "bytes \<Rightarrow> bool" where
  "well_escaped [] = True"
| "well_escaped [c] = (c \<noteq> backslash)"
| "well_escaped (c # e # rest) =
     (if c = backslash then byte e < 128 \<and> well_escaped rest else well_escaped (e # rest))"

definition member_ok :: "bytes \<times> json \<Rightarrow> bool" where
  "member_ok m = (case snd m of JString s \<Rightarrow> ValidString s | _ \<Rightarrow> True)"

definition val_ok :: "json \<Rightarrow> bool" where
  "val_ok v =
     (case v of JString s \<Rightarrow> ValidString s | JObject ms \<Rightarrow> list_all member_ok ms | _ \<Rightarrow> True)"

definition tok_ok :: "token \<Rightarrow> bool" where
  "tok_ok t = (case t of TValue v \<Rightarrow> val_ok v | _ \<Rightarrow> True)"

definition lex_inv :: "lex_state \<times> token list \<Rightarrow> bool" where
  "lex_inv sa =
     (case sa of (s, acc) \<Rightarrow>
        list_all tok_ok acc \<and>
        (case s of
           LString raw \<Rightarrow> well_escaped (rev raw)
         | LEscape raw \<Rightarrow>
             (case raw of [] \<Rightarrow> False | c # raw' \<Rightarrow> c = backslash \<and> well_escaped (rev raw'))
         | LHex n raw \<Rightarrow> well_escaped (rev raw)
         | LLiteral rest v \<Rightarrow> val_ok v
         | _ \<Rightarrow> True))"

definition frame_ok :: "frame \<Rightarrow> bool" where
  "frame_ok f = (case f of InArray vs \<Rightarrow> True | InObject ms k \<Rightarrow> list_all member_ok ms)"

definition parse_inv :: "parse_state \<times> frame list \<Rightarrow> bool" where
  "parse_inv ps =
     (case ps of (p, stack) \<Rightarrow>
        list_all frame_ok stack \<and> (case p of EndTop v \<Rightarrow> val_ok v | _ \<Rightarrow> True))"

section \<open>Example upstreams and requests\<close>

text \<open>
  An upstream that answers every request with the given status and body, an upstream that
  cannot be reached, the same upstream answering with another status, and a
  \<^verbatim>\<open>POST /api/generate\<close> with the given body.
\<close>

definition answering :: "int \<Rightarrow> Reader \<Rightarrow> Env" where
  "answering code body =
     \<lparr>upstreamURL = \<lparr>Host = ''http://127.0.0.1:11434'', Path = '''', RawQuery = ''''\<rparr>,
      NewRequest_error = None,
      Do = (\<lambda>upReq. Inr \<lparr>StatusCode = code, RespHeader = (\<lambda>key. []), RespBody = body\<rparr>),
      Since = 1500000\<rparr>"

definition unreachable :: Env where
  "unreachable =
     \<lparr>upstreamURL = \<lparr>Host = ''http://127.0.0.1:11434'', Path = '''', RawQuery = ''''\<rparr>,
      NewRequest_error = None,
      Do = (\<lambda>upReq. Inl (ErrorString ''dial tcp 127.0.0.1:11434: connect: connection refused'')),
      Since = 1500000\<rparr>"

definition with_status :: "int \<Rightarrow> Env \<Rightarrow> Env" where
  "with_status code env =
     env\<lparr>Do := (\<lambda>upReq. case Do env upReq of
                           Inl err \<Rightarrow> Inl err
                         | Inr resp \<Rightarrow> Inr (resp\<lparr>StatusCode := code\<rparr>))\<rparr>"

definition post_generate :: "Reader \<Rightarrow> Request" where
  "post_generate body =
     \<lparr>Method = ''POST'', URL = \<lparr>Host = '''', Path = ''/api/generate'', RawQuery = ''''\<rparr>,
      Header = (\<lambda>key. []), Body = Some body\<rparr>"

definition buffered_request :: Request where
  \<open>buffered_request = post_generate (Reader [''{"model":"llama3","prompt":"Hi","stream":false}''] None)\<close>

definition streaming_request :: Request where
  \<open>streaming_request = post_generate (Reader [''{"model":"llama3","stream":true}''] None)\<close>

section \<open>Lemmas\<close>

subsection \<open>Storing the members of an object\<close>

lemma names_field_fold: "names_field key tag \<Longrightarrow> foldName key = foldName tag"
  unfolding names_field_def by blast

lemma tags_differ: "foldName ''eval_count'' \<noteq> foldName ''prompt_eval_count''"
  by code_simp

lemma names_one_field:
  "names_field key ''eval_count'' \<Longrightarrow> \<not> names_field key ''prompt_eval_count''"
  using tags_differ names_field_fold by metis

lemma member_RequestPayload_Model:
  "Model (fst (member_RequestPayload (key, v) (p, e))) =
     (case v of JString s \<Rightarrow> (if names_field key ''model'' then s else Model p) | _ \<Rightarrow> Model p)"
  by (cases v) (simp_all add: member_RequestPayload_def store_string_def split: prod.splits)

text \<open>The model a request body leaves in the payload: the last string of a model member.\<close>

lemma fold_member_RequestPayload_Model:
  "Model (fst (fold member_RequestPayload ms (p, e))) =
     (if string_values ''model'' ms = [] then Model p else last (string_values ''model'' ms))"
proof (induction ms arbitrary: p e)
  case Nil
  then show ?case by simp
next
  case (Cons m ms)
  obtain key v where m: "m = (key, v)" by (cases m)
  obtain p' e' where step: "member_RequestPayload (key, v) (p, e) = (p', e')"
    by (cases "member_RequestPayload (key, v) (p, e)")
  from member_RequestPayload_Model [of key v p e] step
  have p': "Model p' = (case v of JString s \<Rightarrow> (if names_field key ''model'' then s else Model p)
                          | _ \<Rightarrow> Model p)"
    by simp
  have unfold: "fold member_RequestPayload (m # ms) (p, e) = fold member_RequestPayload ms (p', e')"
    by (simp add: m step)
  from Cons.IH [of p' e'] p' show ?case
    unfolding unfold by (cases v) (simp_all add: m)
qed

lemma digits_value_nonneg: "digits_value a cs = Some n \<Longrightarrow> 0 \<le> a \<Longrightarrow> 0 \<le> n"
proof (induction cs arbitrary: a)
  case Nil
  then show ?case by simp
next
  case (Cons c cs)
  from Cons.prems have d: "is_digit c"
    and rest: "digits_value (10 * a + (int (byte c) - 48)) cs = Some n"
    by (auto split: if_splits)
  from d have "0 \<le> int (byte c) - 48" by (simp add: is_digit_def)
  with Cons.prems(2) have "0 \<le> 10 * a + (int (byte c) - 48)" by simp
  from Cons.IH [OF rest this] show ?case .
qed

text \<open>\<^verbatim>\<open>ParseInt\<close> returns an \<^verbatim>\<open>int64\<close>, so the word stored reads back as the number parsed.\<close>

lemma ParseInt_range: "ParseInt s = Some n \<Longrightarrow> - (2 ^ 63) \<le> n \<and> n < 2 ^ 63"
proof -
  assume a: "ParseInt s = Some n"
  define ds where "ds = (if take 1 s = ''-'' \<or> take 1 s = ''+'' then drop 1 s else s)"
  from a obtain k where k: "digits_value 0 ds = Some k"
    and n: "n = (if take 1 s = ''-'' then - k else k)"
    and b: "if take 1 s = ''-'' then k \<le> 2 ^ 63 else k < 2 ^ 63"
    by (auto simp add: ParseInt_def Let_def ds_def split: if_splits option.splits)
  from digits_value_nonneg [OF k] have "0 \<le> k" by simp
  with n b show ?thesis by (auto split: if_splits)
qed

lemma sint_int64: "- (2 ^ 63) \<le> n \<Longrightarrow> n < 2 ^ 63 \<Longrightarrow> sint (word_of_int n :: int64) = n"
  by (simp add: sint_sbintrunc' signed_take_bit_int_eq_self)

lemma int64_literal_sint:
  "int64_literal v \<Longrightarrow> sint (word_of_int (int64_value v) :: int64) = int64_value v"
proof -
  assume a: "int64_literal v"
  then obtain lit n where v: "v = JNumber lit" and p: "ParseInt lit = Some n"
    by (auto simp add: int64_literal_def split: json.splits option.splits)
  from ParseInt_range [OF p] show ?thesis
    by (simp add: v p int64_value_def sint_int64)
qed

lemma store_int64_literal:
  "int64_literal v \<Longrightarrow> store_int64_ptr field v old = (Some (word_of_int (int64_value v)), None)"
  by (auto simp add: int64_literal_def int64_value_def store_int64_ptr_def
           split: json.splits option.splits)

lemma member_OllamaResponseMetrics_eval:
  "names_field key ''eval_count'' \<Longrightarrow> int64_literal v \<Longrightarrow>
   member_OllamaResponseMetrics (key, v) (p, None) =
     (p\<lparr>EvalCount := Some (word_of_int (int64_value v))\<rparr>, None)"
  by (simp add: member_OllamaResponseMetrics_def store_int64_literal saveError_def)

lemma member_OllamaResponseMetrics_prompt:
  "\<not> names_field key ''eval_count'' \<Longrightarrow> names_field key ''prompt_eval_count'' \<Longrightarrow>
   int64_literal v \<Longrightarrow>
   member_OllamaResponseMetrics (key, v) (p, None) =
     (p\<lparr>PromptEvalCount := Some (word_of_int (int64_value v))\<rparr>, None)"
  by (simp add: member_OllamaResponseMetrics_def store_int64_literal saveError_def)

lemma member_OllamaResponseMetrics_other:
  "\<not> names_field key ''eval_count'' \<Longrightarrow> \<not> names_field key ''prompt_eval_count'' \<Longrightarrow>
   member_OllamaResponseMetrics (key, v) (p, None) = (p, None)"
  by (simp add: member_OllamaResponseMetrics_def)

text \<open>
  An object whose count members are all integer fields is stored without an error, and
  each pointer ends at the last value of its field.
\<close>

lemma fold_member_OllamaResponseMetrics:
  assumes "list_all int64_literal (field_values ''eval_count'' ms)"
      and "list_all int64_literal (field_values ''prompt_eval_count'' ms)"
  shows "fold member_OllamaResponseMetrics ms (p, None) =
           (\<lparr>EvalCount = (case count_field ''eval_count'' ms of
                            None \<Rightarrow> EvalCount p | Some n \<Rightarrow> Some (word_of_int n)),
             PromptEvalCount = (case count_field ''prompt_eval_count'' ms of
                                  None \<Rightarrow> PromptEvalCount p | Some n \<Rightarrow> Some (word_of_int n))\<rparr>,
            None)"
  using assms
proof (induction ms arbitrary: p)
  case Nil
  then show ?case by (simp add: count_field_def)
next
  case (Cons m ms)
  obtain key v where m: "m = (key, v)" by (cases m)
  from Cons.prems have tl: "list_all int64_literal (field_values ''eval_count'' ms)"
    "list_all int64_literal (field_values ''prompt_eval_count'' ms)"
    by (simp_all add: m)
  show ?case
  proof (cases "names_field key ''eval_count''")
    case True
    with Cons.prems have lit: "int64_literal v" by (simp add: m)
    from True have np: "\<not> names_field key ''prompt_eval_count''" by (rule names_one_field)
    have step: "fold member_OllamaResponseMetrics (m # ms) (p, None) =
                fold member_OllamaResponseMetrics ms
                  (p\<lparr>EvalCount := Some (word_of_int (int64_value v))\<rparr>, None)"
      by (simp add: m member_OllamaResponseMetrics_eval [OF True lit])
    show ?thesis
      unfolding step Cons.IH [OF tl]
      using True np by (simp add: m count_field_def)
  next
    case False
    show ?thesis
    proof (cases "names_field key ''prompt_eval_count''")
      case True
      with Cons.prems False have lit: "int64_literal v" by (simp add: m)
      have step: "fold member_OllamaResponseMetrics (m # ms) (p, None) =
                  fold member_OllamaResponseMetrics ms
                    (p\<lparr>PromptEvalCount := Some (word_of_int (int64_value v))\<rparr>, None)"
        by (simp add: m member_OllamaResponseMetrics_prompt [OF False True lit])
      show ?thesis
        unfolding step Cons.IH [OF tl]
        using True False by (simp add: m count_field_def)
    next
      case np: False
      have step: "fold member_OllamaResponseMetrics (m # ms) (p, None) =
                  fold member_OllamaResponseMetrics ms (p, None)"
        by (simp add: m member_OllamaResponseMetrics_other [OF False np])
      show ?thesis
        unfolding step Cons.IH [OF tl]
        using False np by (simp add: m count_field_def)
    qed
  qed
qed

lemma Unmarshal_OllamaResponseMetrics_counts:
  assumes "json_scan respBuf = Some (JObject ms)"
      and "list_all int64_literal (field_values ''eval_count'' ms)"
      and "list_all int64_literal (field_values ''prompt_eval_count'' ms)"
  shows "Unmarshal_OllamaResponseMetrics respBuf \<lparr>EvalCount = None, PromptEvalCount = None\<rparr> =
           (\<lparr>EvalCount = map_option word_of_int (count_field ''eval_count'' ms),
             PromptEvalCount = map_option word_of_int (count_field ''prompt_eval_count'' ms)\<rparr>,
            None)"
  using assms
  by (simp add: Unmarshal_OllamaResponseMetrics_def fold_member_OllamaResponseMetrics
           split: option.splits)

lemma last_list_all: "list_all P xs \<Longrightarrow> xs \<noteq> [] \<Longrightarrow> P (last xs)"
  by (induction xs) (auto split: if_splits)

lemma count_field_token_count:
  assumes "list_all token_count (field_values tag ms)" and "count_field tag ms = Some n"
  shows "sint (word_of_int n :: int64) = n \<and> 0 \<le> n"
proof -
  from assms(2) have ne: "field_values tag ms \<noteq> []"
    and n: "n = int64_value (last (field_values tag ms))"
    by (auto simp add: count_field_def split: if_splits)
  from last_list_all [OF assms(1) ne] have "token_count (last (field_values tag ms))" .
  then show ?thesis
    by (simp add: n token_count_def int64_literal_sint)
qed

lemma list_all_token_count: "list_all token_count vs \<Longrightarrow> list_all int64_literal vs"
  by (induction vs) (simp_all add: token_count_def)

subsection \<open>The response writer\<close>

lemmas writer_defs = w_WriteHeader_def WriteHeader_def w_Write_def Write_def http_Error_def and_then_def

lemma Itoa_502: "Itoa 502 = ''502''"
  by code_simp

lemma http_Error_metrics: "metrics (final (http_Error msg code st)) = metrics st"
  by (simp add: writer_defs Let_def split: sum.splits prod.splits option.splits)

lemma http_Error_fresh:
  assumes "status (writer st) = None" and "200 \<le> code" and "code \<le> 999"
  shows "status (writer (final (http_Error msg code st))) = Some code
       \<and> metrics (final (http_Error msg code st)) = metrics st
       \<and> upstream (final (http_Error msg code st)) = upstream st
       \<and> \<not> panicked (http_Error msg code st)"
  using assms by (simp add: writer_defs Let_def split: option.splits)

lemma WriteHeader_valid:
  assumes "100 \<le> code" and "code \<le> 999"
  shows "\<exists>rw'. WriteHeader code rw = Inr rw' \<and> sent rw' = sent rw \<and> room rw' = room rw"
  using assms by (simp add: WriteHeader_def)

lemma w_WriteHeader_valid:
  assumes "100 \<le> code" and "code \<le> 999"
  obtains rw' where "w_WriteHeader code st = Ok (st\<lparr>writer := rw'\<rparr>)"
    and "sent rw' = sent (writer st)" and "room rw' = room (writer st)"
proof -
  from WriteHeader_valid [OF assms, of "writer st"]
  obtain rw' where "WriteHeader code (writer st) = Inr rw'"
    and "sent rw' = sent (writer st)" and "room rw' = room (writer st)"
    by blast
  then show thesis
    by (intro that [of rw']) (simp_all add: w_WriteHeader_def)
qed

lemma w_WriteHeader_Ok_metrics: "w_WriteHeader code st = Ok st' \<Longrightarrow> metrics st' = metrics st"
  by (auto simp add: w_WriteHeader_def split: sum.splits)

lemma w_WriteHeader_Panic: "w_WriteHeader code st = Panic p st' \<Longrightarrow> st' = st"
  by (auto simp add: w_WriteHeader_def split: sum.splits)

lemma Write_sent_length:
  "Write p rw = ((n, e), rw') \<Longrightarrow> length (sent rw') = length (sent rw) + n \<and> n \<le> length p"
  by (auto simp add: Write_def Let_def split: option.splits if_splits)

lemma Write_takes_all: "takes_all (room rw) p \<Longrightarrow> sent (snd (Write p rw)) = sent rw @ p"
  by (auto simp add: Write_def takes_all_def Let_def split: option.splits)

text \<open>The count \<^verbatim>\<open>io.Copy\<close> returns is the number of bytes it wrote.\<close>

lemma Copy_loop_sent:
  "Copy_loop rw cs er written = ((n, e), rw') \<Longrightarrow>
     written \<le> n \<and> length (sent rw') = length (sent rw) + (n - written)"
proof (induction rw cs er written arbitrary: n e rw' rule: Copy_loop.induct)
  case (1 rw er written)
  then show ?case by simp
next
  case (2 rw buf rest er written)
  show ?case
  proof (cases "buf = []")
    case True
    with 2 show ?thesis by simp
  next
    case False
    obtain nw ew rw1 where w: "Write buf rw = ((nw, ew), rw1)"
      by (metis prod.exhaust)
    from Write_sent_length [OF w] have l: "length (sent rw1) = length (sent rw) + nw" by simp
    show ?thesis
    proof (cases ew)
      case None
      with False w "2.prems" have "Copy_loop rw1 rest er (written + nw) = ((n, e), rw')" by simp
      from "2.IH"(2) [OF False w [symmetric] refl None this] l
      show ?thesis by simp
    next
      case (Some x)
      with False w "2.prems" l show ?thesis by auto
    qed
  qed
qed

lemma Copy_sent: "Copy rw src = ((n, e), rw') \<Longrightarrow> length (sent rw') = length (sent rw) + n"
  using Copy_loop_sent [of rw "chunks src" "failure src" 0 n e rw'] by (simp add: Copy_def)

text \<open>It writes no more than the reader holds.\<close>

lemma Copy_loop_bound:
  "Copy_loop rw cs er written = ((n, e), rw') \<Longrightarrow> n \<le> written + length (concat cs)"
proof (induction rw cs er written arbitrary: n e rw' rule: Copy_loop.induct)
  case (1 rw er written)
  then show ?case by simp
next
  case (2 rw buf rest er written)
  show ?case
  proof (cases "buf = []")
    case True
    with 2 show ?thesis by simp
  next
    case False
    obtain nw ew rw1 where w: "Write buf rw = ((nw, ew), rw1)"
      by (metis prod.exhaust)
    from Write_sent_length [OF w] have l: "nw \<le> length buf" by simp
    show ?thesis
    proof (cases ew)
      case None
      with False w "2.prems" have "Copy_loop rw1 rest er (written + nw) = ((n, e), rw')" by simp
      from "2.IH"(2) [OF False w [symmetric] refl None this] l
      show ?thesis by simp
    next
      case (Some x)
      with False w "2.prems" l show ?thesis by auto
    qed
  qed
qed

lemma Copy_bound: "Copy rw src = ((n, e), rw') \<Longrightarrow> n \<le> length (concat (chunks src))"
  using Copy_loop_bound [of rw "chunks src" "failure src" 0 n e rw'] by (simp add: Copy_def)

text \<open>
  The stream flag a request body leaves in the payload: the values of its stream members
  are stored one after the other, starting from \<^verbatim>\<open>nil\<close>.
\<close>

lemma model_stream_tags_differ: "foldName ''model'' \<noteq> foldName ''stream''"
  by code_simp

lemma names_model_not_stream: "names_field key ''model'' \<Longrightarrow> \<not> names_field key ''stream''"
  using model_stream_tags_differ names_field_fold by metis

lemma member_RequestPayload_Stream:
  "Stream (fst (member_RequestPayload (key, v) (p, e))) =
     (if names_field key ''stream'' then fst (store_bool_ptr ''stream'' v (Stream p)) else Stream p)"
  using names_model_not_stream [of key]
  by (auto simp add: member_RequestPayload_def split: prod.splits)

lemma fold_member_RequestPayload_Stream:
  "Stream (fst (fold member_RequestPayload ms (p, e))) =
     fold (\<lambda>v s. fst (store_bool_ptr ''stream'' v s)) (field_values ''stream'' ms) (Stream p)"
proof (induction ms arbitrary: p e)
  case Nil
  then show ?case by simp
next
  case (Cons m ms)
  obtain key v where m: "m = (key, v)" by (cases m)
  obtain p' e' where step: "member_RequestPayload (key, v) (p, e) = (p', e')"
    by (cases "member_RequestPayload (key, v) (p, e)")
  from member_RequestPayload_Stream [of key v p e] step
  have p': "Stream p' = (if names_field key ''stream''
                         then fst (store_bool_ptr ''stream'' v (Stream p)) else Stream p)"
    by simp
  have unfold: "fold member_RequestPayload (m # ms) (p, e) = fold member_RequestPayload ms (p', e')"
    by (simp add: m step)
  from Cons.IH [of p' e'] p' show ?case
    unfolding unfold by (simp add: m)
qed

lemma stream_flag_stored:
  "json_scan bodyBuf = Some (JObject ms) \<Longrightarrow>
   Stream (payload_of bodyBuf) =
     fold (\<lambda>v s. fst (store_bool_ptr ''stream'' v s)) (field_values ''stream'' ms) None"
  by (simp add: payload_of_def Unmarshal_RequestPayload_def fold_member_RequestPayload_Stream)

text \<open>
  No stream member, or a body that is no object: the default. A boolean as the last stream
  member: its value. A single stream member that is neither \<^verbatim>\<open>null\<close> nor a boolean:
  \<open>False\<close>, not the default.
\<close>

lemma stream_flag_no_object:
  assumes "\<And>ms. json_scan bodyBuf \<noteq> Some (JObject ms)"
  shows "stream_of (payload_of bodyBuf)"
proof (cases "json_scan bodyBuf")
  case None
  then show ?thesis
    by (simp add: stream_of_def payload_of_def Unmarshal_RequestPayload_def)
next
  case (Some d)
  with assms show ?thesis
    by (cases d) (auto simp add: stream_of_def payload_of_def Unmarshal_RequestPayload_def)
qed

lemma stream_flag_absent:
  "json_scan bodyBuf = Some (JObject ms) \<Longrightarrow> field_values ''stream'' ms = [] \<Longrightarrow>
   stream_of (payload_of bodyBuf)"
  by (simp add: stream_of_def stream_flag_stored)

lemma stream_flag_boolean:
  assumes "json_scan bodyBuf = Some (JObject ms)"
      and "field_values ''stream'' ms \<noteq> []"
      and "last (field_values ''stream'' ms) = JBool b"
  shows "stream_of (payload_of bodyBuf) = b"
proof -
  let ?f = "\<lambda>v s. fst (store_bool_ptr ''stream'' v s)"
  from assms(2,3) have vs: "field_values ''stream'' ms = butlast (field_values ''stream'' ms) @ [JBool b]"
    by (metis append_butlast_last_id)
  have "fold ?f (butlast (field_values ''stream'' ms) @ [JBool b]) None = Some b"
    by (simp add: store_bool_ptr_def)
  with vs have "fold ?f (field_values ''stream'' ms) None = Some b"
    by simp
  with assms(1) show ?thesis
    by (simp add: stream_of_def stream_flag_stored)
qed

lemma stream_flag_ill_typed:
  assumes "json_scan bodyBuf = Some (JObject ms)"
      and "field_values ''stream'' ms = [v]"
      and "v \<noteq> JNull" and "\<And>b. v \<noteq> JBool b"
  shows "\<not> stream_of (payload_of bodyBuf)"
  using assms
  by (cases v) (auto simp add: stream_of_def stream_flag_stored store_bool_ptr_def)

subsection \<open>Label values and amounts\<close>

text \<open>A string of ASCII bytes is valid UTF-8; so are the labels the handler makes itself.\<close>

lemma valid_utf8_ascii: "list_all (\<lambda>c. byte c < 128) s \<Longrightarrow> valid_utf8 0 s"
  by (induction s) (simp_all add: utf8_len_def)

lemma ValidString_ascii: "list_all (\<lambda>c. byte c < 128) s \<Longrightarrow> ValidString s"
  by (simp add: ValidString_def valid_utf8_ascii)

lemma nat_digits_ascii: "list_all (\<lambda>c. byte c < 128) (nat_digits n)"
proof (induction n rule: nat_digits.induct)
  case (1 n)
  show ?case
  proof (cases "n < 10")
    case True
    then show ?thesis
      by (simp add: nat_digits.simps [of n] byte_def)
  next
    case False
    have "n mod 10 < 10" by simp
    then have "(48 + n mod 10) mod 256 < 128" by simp
    with False "1.IH" show ?thesis
      by (simp add: nat_digits.simps [of n] byte_def)
  qed
qed

lemma ValidString_Itoa: "ValidString (Itoa i)"
proof -
  have "byte CHR ''-'' < 128" by (simp add: byte_def)
  then show ?thesis
    by (intro ValidString_ascii) (simp add: Itoa_def nat_digits_ascii)
qed

lemma ValidString_streamLabel: "ValidString (streamLabel_of b)"
  by (rule ValidString_ascii) (simp add: streamLabel_of_def byte_def)

text \<open>\<^verbatim>\<open>float64\<close> is exact below \<open>2 ^ 53\<close>, and keeps a value that is not negative so.\<close>

lemma float64_exact: "0 \<le> n \<Longrightarrow> n < 2 ^ 53 \<Longrightarrow> float64 n = n"
  by (simp add: float64_def round53_def bits_dropped.simps [of n] Let_def)

lemma round53_nonneg: "0 \<le> a \<Longrightarrow> 0 \<le> round53 a"
  by (simp add: round53_def Let_def pos_imp_zdiv_nonneg_iff)

lemma float64_nonneg: "0 \<le> n \<Longrightarrow> 0 \<le> float64 n"
  by (simp add: float64_def round53_nonneg)

text \<open>The metric calls: what they do with label values that are accepted, and in general.\<close>

lemma Counter_Add_ok:
  "list_all ValidString lvs \<Longrightarrow> 0 \<le> v \<Longrightarrow>
     Counter_Add s lvs v st = Ok (st\<lparr>metrics := metrics st @ [Add s lvs v]\<rparr>)"
  by (simp add: Counter_Add_def WithLabelValues_def and_then_def)

lemma Counter_Inc_ok:
  "list_all ValidString lvs \<Longrightarrow>
     Counter_Inc s lvs st = Ok (st\<lparr>metrics := metrics st @ [Inc s lvs]\<rparr>)"
  by (simp add: Counter_Inc_def WithLabelValues_def and_then_def)

lemma Histogram_Observe_ok:
  "list_all ValidString lvs \<Longrightarrow>
     Histogram_Observe s lvs d st = Ok (st\<lparr>metrics := metrics st @ [Observe s lvs d]\<rparr>)"
  by (simp add: Histogram_Observe_def WithLabelValues_def and_then_def)

lemma Counter_Add_cases:
  "Counter_Add s lvs v st = Ok (st\<lparr>metrics := metrics st @ [Add s lvs v]\<rparr>)
   \<or> (\<exists>p. Counter_Add s lvs v st = Panic p st)"
  by (simp add: Counter_Add_def WithLabelValues_def and_then_def)

lemma relay_labels:
  "ValidString endpoint \<Longrightarrow> ValidString model \<Longrightarrow>
     list_all ValidString [endpoint, model, Itoa code, streamLabel_of b]"
  by (simp add: ValidString_Itoa ValidString_streamLabel)

text \<open>An exact count is a token count, and \<^verbatim>\<open>float64\<close> holds it as it is.\<close>

lemma list_all_exact_count: "list_all exact_count vs \<Longrightarrow> list_all token_count vs"
  by (induction vs) (simp_all add: exact_count_def)

lemma count_field_exact:
  assumes "list_all exact_count (field_values tag ms)" and "count_field tag ms = Some n"
  shows "float64 n = n"
proof -
  from assms(2) have ne: "field_values tag ms \<noteq> []"
    and n: "n = int64_value (last (field_values tag ms))"
    by (auto simp add: count_field_def split: if_splits)
  from last_list_all [OF assms(1) ne] have "exact_count (last (field_values tag ms))" .
  then show ?thesis
    by (simp add: n exact_count_def token_count_def float64_exact)
qed

subsection \<open>The strings of a document are valid UTF-8\<close>

text \<open>
  \<^verbatim>\<open>encoding/json\<close> replaces every byte of a string literal that starts no well-formed
  UTF-8 sequence by U+FFFD, and an escape gives an ASCII byte or an encoded rune. So the
  strings of a decoded document are valid UTF-8, and with them the model label.
\<close>

lemma utf8_len_1: "byte b0 < 128 \<Longrightarrow> utf8_len (b0 # r) = 1"
  by (simp add: utf8_len_def)

lemma utf8_len_2: "seq2 b0 b1 \<Longrightarrow> utf8_len (b0 # b1 # r) = 2"
  by (simp add: utf8_len_def seq2_def)

lemma utf8_len_3: "seq3 b0 b1 b2 \<Longrightarrow> utf8_len (b0 # b1 # b2 # r) = 3"
  by (simp add: utf8_len_def seq3_def)

lemma utf8_len_4: "seq4 b0 b1 b2 b3 \<Longrightarrow> utf8_len (b0 # b1 # b2 # b3 # r) = 4"
  by (simp add: utf8_len_def seq4_def)

lemma utf8_len_elim:
  assumes "utf8_len bs \<noteq> 0"
  shows "(\<exists>b0 r. bs = b0 # r \<and> byte b0 < 128 \<and> utf8_len bs = 1)
       \<or> (\<exists>b0 b1 r. bs = b0 # b1 # r \<and> seq2 b0 b1 \<and> utf8_len bs = 2)
       \<or> (\<exists>b0 b1 b2 r. bs = b0 # b1 # b2 # r \<and> seq3 b0 b1 b2 \<and> utf8_len bs = 3)
       \<or> (\<exists>b0 b1 b2 b3 r. bs = b0 # b1 # b2 # b3 # r \<and> seq4 b0 b1 b2 b3 \<and> utf8_len bs = 4)"
proof (cases bs)
  case Nil
  with assms show ?thesis by (auto simp add: utf8_len_def split: if_splits)
next
  case (Cons b0 r0)
  show ?thesis
  proof (cases "byte b0 < 128")
    case True
    with Cons show ?thesis by (simp add: utf8_len_1)
  next
    case a: False
    show ?thesis
    proof (cases r0)
      case Nil
      with Cons a assms show ?thesis by (auto simp add: utf8_len_def split: if_splits)
    next
      case r0: (Cons b1 r1)
      show ?thesis
      proof (cases "194 \<le> byte b0 \<and> byte b0 \<le> 223")
        case True
        with Cons r0 a assms have "seq2 b0 b1"
          by (auto simp add: utf8_len_def seq2_def split: if_splits)
        with Cons r0 show ?thesis by (simp add: utf8_len_2)
      next
        case b: False
        show ?thesis
        proof (cases r1)
          case Nil
          with Cons r0 a b assms show ?thesis by (auto simp add: utf8_len_def split: if_splits)
        next
          case r1: (Cons b2 r2)
          show ?thesis
          proof (cases "224 \<le> byte b0 \<and> byte b0 \<le> 239")
            case True
            with Cons r0 r1 a b assms have "seq3 b0 b1 b2"
              by (auto simp add: utf8_len_def seq3_def split: if_splits)
            with Cons r0 r1 show ?thesis by (simp add: utf8_len_3)
          next
            case c: False
            show ?thesis
            proof (cases r2)
              case Nil
              with Cons r0 r1 a b c assms show ?thesis by (auto simp add: utf8_len_def split: if_splits)
            next
              case r2: (Cons b3 r3)
              with Cons r0 r1 a b c assms have "seq4 b0 b1 b2 b3"
                by (auto simp add: utf8_len_def seq4_def split: if_splits)
              with Cons r0 r1 r2 show ?thesis by (simp add: utf8_len_4)
            qed
          qed
        qed
      qed
    qed
  qed
qed


lemma byte_backslash: "byte backslash = 92"
  by (simp add: byte_def)

lemma not_backslash: "128 \<le> byte c \<Longrightarrow> c \<noteq> backslash"
  using byte_backslash by auto

lemma well_escaped_Cons: "c \<noteq> backslash \<Longrightarrow> well_escaped (c # cs) = well_escaped cs"
  by (cases cs) simp_all

lemma is_cont_not_backslash: "is_cont c \<Longrightarrow> c \<noteq> backslash"
  by (rule not_backslash) (simp add: is_cont_def)

lemma hex_not_backslash: "hex_val c \<noteq> None \<Longrightarrow> c \<noteq> backslash"
  by (auto simp add: hex_val_def byte_def)

lemma valid_utf8_skip: "length q = k \<Longrightarrow> valid_utf8 k (q @ rest) = valid_utf8 0 rest"
  by (induction q arbitrary: k) auto

lemma valid_utf8_1: "byte b0 < 128 \<Longrightarrow> valid_utf8 0 (b0 # r) = valid_utf8 0 r"
  by (simp add: utf8_len_1)

lemma valid_utf8_2: "seq2 b0 b1 \<Longrightarrow> valid_utf8 0 (b0 # b1 # r) = valid_utf8 0 r"
  by (simp add: utf8_len_2)

lemma valid_utf8_3: "seq3 b0 b1 b2 \<Longrightarrow> valid_utf8 0 (b0 # b1 # b2 # r) = valid_utf8 0 r"
  by (simp add: utf8_len_3)

lemma valid_utf8_4:
  "seq4 b0 b1 b2 b3 \<Longrightarrow> valid_utf8 0 (b0 # b1 # b2 # b3 # r) = valid_utf8 0 r"
  by (simp add: utf8_len_4)

declare valid_utf8.simps [simp del]
declare well_escaped.simps [simp del]

lemma valid_utf8_take:
  assumes "utf8_len bs \<noteq> 0"
  shows "valid_utf8 0 (take (utf8_len bs) bs @ X) = valid_utf8 0 X"
  using utf8_len_elim [OF assms]
  by (auto simp add: valid_utf8_1 valid_utf8_2 valid_utf8_3 valid_utf8_4)

lemma seq2_tail: "seq2 b0 b1 \<Longrightarrow> b1 \<noteq> backslash"
  by (auto simp add: seq2_def is_cont_def byte_def)

lemma seq3_tail: "seq3 b0 b1 b2 \<Longrightarrow> b1 \<noteq> backslash \<and> b2 \<noteq> backslash"
  by (auto simp add: seq3_def is_cont_def byte_def split: if_splits)

lemma seq4_tail: "seq4 b0 b1 b2 b3 \<Longrightarrow> b1 \<noteq> backslash \<and> b2 \<noteq> backslash \<and> b3 \<noteq> backslash"
  by (auto simp add: seq4_def is_cont_def byte_def split: if_splits)

lemma well_escaped_drop_seq:
  assumes "utf8_len (c # cs) \<noteq> 0" and "128 \<le> byte c" and "well_escaped (c # cs)"
  shows "well_escaped (drop (utf8_len (c # cs) - 1) cs)"
proof -
  from assms(2,3) have w: "well_escaped cs"
    by (simp add: well_escaped_Cons not_backslash)
  from utf8_len_elim [OF assms(1)] assms(2) w show ?thesis
    by (auto simp add: well_escaped_Cons dest!: seq2_tail seq3_tail seq4_tail)
qed

lemma valid_replacement: "valid_utf8 0 (replacement_char @ X) = valid_utf8 0 X"
proof -
  have "seq3 (CHR 0xEF) (CHR 0xBF) (CHR 0xBD)"
    by (simp add: seq3_def is_cont_def byte_def)
  then show ?thesis
    by (simp add: replacement_char_def valid_utf8_3)
qed


lemma byte_char_of: "n < 256 \<Longrightarrow> byte (char_of n) = n"
  by (simp add: byte_def)

lemma mod64_le: "(x::nat) mod 64 \<le> 63"
  using mod_less_divisor [of 64 x] by linarith

lemma seq2_I:
  fixes l z :: nat
  shows "2 \<le> l \<Longrightarrow> l < 32 \<Longrightarrow> z \<le> 63 \<Longrightarrow> seq2 (char_of (192 + l)) (char_of (128 + z))"
  by (simp add: seq2_def is_cont_def byte_char_of)

lemma seq3_I:
  fixes l x z :: nat
  shows "l < 16 \<Longrightarrow> x \<le> 63 \<Longrightarrow> z \<le> 63 \<Longrightarrow> (l = 0 \<Longrightarrow> 32 \<le> x) \<Longrightarrow> (l = 13 \<Longrightarrow> x < 32) \<Longrightarrow>
     seq3 (char_of (224 + l)) (char_of (128 + x)) (char_of (128 + z))"
  by (auto simp add: seq3_def is_cont_def byte_char_of)

lemma seq4_I:
  fixes l x y z :: nat
  shows "l < 5 \<Longrightarrow> x \<le> 63 \<Longrightarrow> y \<le> 63 \<Longrightarrow> z \<le> 63 \<Longrightarrow> (l = 0 \<Longrightarrow> 16 \<le> x) \<Longrightarrow> (l = 4 \<Longrightarrow> x < 16) \<Longrightarrow>
     seq4 (char_of (240 + l)) (char_of (128 + x)) (char_of (128 + y)) (char_of (128 + z))"
  by (auto simp add: seq4_def is_cont_def byte_char_of)

lemma seq2_EncodeRune:
  fixes r :: nat
  assumes "128 \<le> r" and "r < 2048"
  shows "seq2 (char_of (192 + r div 64)) (char_of (128 + r mod 64))"
proof (rule seq2_I)
  from assms show "2 \<le> r div 64" "r div 64 < 32"
    by (simp_all add: less_eq_div_iff_mult_less_eq div_less_iff_less_mult)
  show "r mod 64 \<le> 63" by (rule mod64_le)
qed

lemma seq3_EncodeRune:
  fixes r :: nat
  assumes "2048 \<le> r" and "r < 65536" and "\<not> (55296 \<le> r \<and> r \<le> 57343)"
  shows "seq3 (char_of (224 + r div 4096)) (char_of (128 + r div 64 mod 64))
           (char_of (128 + r mod 64))"
proof (rule seq3_I)
  from assms show "r div 4096 < 16"
    by (simp add: div_less_iff_less_mult)
  show "r div 64 mod 64 \<le> 63" "r mod 64 \<le> 63" by (rule mod64_le)+
  show "32 \<le> r div 64 mod 64" if z: "r div 4096 = 0"
  proof -
    from z have "r < 4096" by (simp add: div_eq_0_iff)
    then have "r div 64 < 64" by (simp add: div_less_iff_less_mult)
    then have "r div 64 mod 64 = r div 64" by simp
    moreover from assms(1) have "32 \<le> r div 64" by (simp add: less_eq_div_iff_mult_less_eq)
    ultimately show ?thesis by simp
  qed
  show "r div 64 mod 64 < 32" if z: "r div 4096 = 13"
  proof -
    from z have "13 \<le> r div 4096" and "r div 4096 < 14" by simp_all
    then have lo: "53248 \<le> r" and hi: "r < 57344"
      by (simp_all add: less_eq_div_iff_mult_less_eq div_less_iff_less_mult)
    with assms(3) have "r < 55296" by simp
    then have q1: "r div 64 < 864" by (simp add: div_less_iff_less_mult)
    from lo have q0: "832 \<le> r div 64" by (simp add: less_eq_div_iff_mult_less_eq)
    define y where "y = r div 64 - 832"
    from q0 q1 have y: "y < 32" and q: "r div 64 = y + 64 * 13" by (simp_all add: y_def)
    have "r div 64 mod 64 = y"
      unfolding q using y by (simp only: mod_mult_self2 mod_less)
    with y show ?thesis by simp
  qed
qed

lemma seq4_EncodeRune:
  fixes r :: nat
  assumes "65536 \<le> r" and "r < 1114112"
  shows "seq4 (char_of (240 + r div 262144)) (char_of (128 + r div 4096 mod 64))
           (char_of (128 + r div 64 mod 64)) (char_of (128 + r mod 64))"
proof (rule seq4_I)
  from assms show "r div 262144 < 5"
    by (simp add: div_less_iff_less_mult)
  show "r div 4096 mod 64 \<le> 63" "r div 64 mod 64 \<le> 63" "r mod 64 \<le> 63"
    by (rule mod64_le)+
  show "16 \<le> r div 4096 mod 64" if z: "r div 262144 = 0"
  proof -
    from z have "r < 262144" by (simp add: div_eq_0_iff)
    then have "r div 4096 < 64" by (simp add: div_less_iff_less_mult)
    then have "r div 4096 mod 64 = r div 4096" by simp
    moreover from assms(1) have "16 \<le> r div 4096" by (simp add: less_eq_div_iff_mult_less_eq)
    ultimately show ?thesis by simp
  qed
  show "r div 4096 mod 64 < 16" if z: "r div 262144 = 4"
  proof -
    from z have "4 \<le> r div 262144" by simp
    then have lo: "1048576 \<le> r"
      by (simp add: less_eq_div_iff_mult_less_eq)
    from assms(2) have q1: "r div 4096 < 272" by (simp add: div_less_iff_less_mult)
    from lo have q0: "256 \<le> r div 4096" by (simp add: less_eq_div_iff_mult_less_eq)
    define y where "y = r div 4096 - 256"
    from q0 q1 have y: "y < 16" and q: "r div 4096 = y + 64 * 4" by (simp_all add: y_def)
    have "r div 4096 mod 64 = y"
      unfolding q using y by (simp only: mod_mult_self2 mod_less)
    with y show ?thesis by simp
  qed
qed

lemma valid_EncodeRune: "valid_utf8 0 (EncodeRune r @ X) = valid_utf8 0 X"
proof -
  consider "r < 128" | "128 \<le> r" "r < 2048" | "55296 \<le> r \<and> r \<le> 57343"
    | "2048 \<le> r" "r < 65536" "\<not> (55296 \<le> r \<and> r \<le> 57343)"
    | "65536 \<le> r" "r < 1114112" | "1114112 \<le> r"
    by linarith
  then show ?thesis
  proof cases
    case 1
    then show ?thesis by (simp add: EncodeRune_def valid_utf8_1 byte_char_of)
  next
    case 2
    from seq2_EncodeRune [OF 2] 2 show ?thesis
      by (simp add: EncodeRune_def valid_utf8_2)
  next
    case 3
    then show ?thesis by (simp add: EncodeRune_def valid_replacement)
  next
    case 4
    from seq3_EncodeRune [OF 4] 4 show ?thesis
      by (auto simp add: EncodeRune_def valid_utf8_3)
  next
    case 5
    from seq4_EncodeRune [OF 5] 5 show ?thesis
      by (simp add: EncodeRune_def valid_utf8_4)
  next
    case 6
    then show ?thesis by (simp add: EncodeRune_def valid_replacement)
  qed
qed


lemma getu4_Some:
  assumes "getu4 s = Some rr"
  shows "\<exists>h1 h2 h3 h4 r. s = backslash # CHR ''u'' # h1 # h2 # h3 # h4 # r
           \<and> hex_val h1 \<noteq> None \<and> hex_val h2 \<noteq> None \<and> hex_val h3 \<noteq> None \<and> hex_val h4 \<noteq> None"
  using assms
  by (auto simp add: getu4_def split: list.splits if_splits option.splits)

lemma well_escaped_getu4:
  assumes "getu4 s = Some rr" and "well_escaped s"
  shows "well_escaped (drop 6 s)"
proof -
  from getu4_Some [OF assms(1)] obtain h1 h2 h3 h4 r where
    s: "s = backslash # CHR ''u'' # h1 # h2 # h3 # h4 # r"
    and x: "hex_val h1 \<noteq> None" "hex_val h2 \<noteq> None" "hex_val h3 \<noteq> None" "hex_val h4 \<noteq> None"
    by blast
  note h = x [THEN hex_not_backslash]
  from assms(2) h show ?thesis
    by (simp add: s well_escaped.simps(3) well_escaped_Cons)
qed

lemma escape_char_ascii: "byte e < 128 \<Longrightarrow> byte (escape_char e) < 128"
  by (simp add: escape_char_def byte_def)

lemma unquote_valid: "well_escaped s \<Longrightarrow> valid_utf8 0 (unquote s)"
proof (induction s rule: length_induct)
  case (1 s)
  have IH: "valid_utf8 0 (unquote ys)" if "length ys < length s" and "well_escaped ys" for ys
    using "1.IH" that by blast
  note w = "1.prems"
  show ?case
  proof (cases s)
    case Nil
    then show ?thesis by (simp add: valid_utf8.simps)
  next
    case (Cons c cs)
    show ?thesis
    proof (cases "c = backslash")
      case True
      note bs = this
      show ?thesis
      proof (cases cs)
        case Nil
        with Cons bs show ?thesis by (simp add: valid_utf8.simps)
      next
        case cs: (Cons e rest)
        from w Cons bs cs have e: "byte e < 128" and wr: "well_escaped rest"
          by (simp_all add: well_escaped.simps(3))
        show ?thesis
        proof (cases "e = CHR ''u''")
          case False
          from IH [of rest] wr Cons cs have "valid_utf8 0 (unquote rest)" by simp
          with False Cons bs cs escape_char_ascii [OF e] show ?thesis
            by (simp add: valid_utf8_1)
        next
          case u: True
          show ?thesis
          proof (cases "getu4 s")
            case None
            with Cons bs cs u show ?thesis by (simp add: valid_utf8.simps)
          next
            case (Some rr)
            from well_escaped_getu4 [OF Some w] Cons have w5: "well_escaped (drop 5 cs)"
              by simp
            from Cons cs have l5: "length (drop 5 cs) < length s" by simp
            note v5 = IH [OF l5 w5]
            show ?thesis
            proof (cases "55296 \<le> rr \<and> rr \<le> 57343")
              case False
              with Some Cons bs cs u v5 show ?thesis
                by (auto simp add: valid_EncodeRune)
            next
              case sur: True
              show ?thesis
              proof (cases "getu4 (drop 5 cs)")
                case None
                with sur Some Cons bs cs u v5 show ?thesis
                  by (simp add: valid_replacement)
              next
                case s2: (Some rr1)
                from well_escaped_getu4 [OF s2 w5] have w11: "well_escaped (drop 11 cs)"
                  by simp
                from Cons cs have l11: "length (drop 11 cs) < length s" by simp
                note v11 = IH [OF l11 w11]
                from sur Some s2 Cons bs cs u v5 v11 show ?thesis
                  by (simp add: valid_replacement valid_EncodeRune)
              qed
            qed
          qed
        qed
      qed
    next
      case nb: False
      with w Cons have wc: "well_escaped cs" by (simp add: well_escaped_Cons)
      from IH [of cs] wc Cons have vc: "valid_utf8 0 (unquote cs)" by simp
      show ?thesis
      proof (cases "byte c < 128")
        case True
        with nb Cons vc show ?thesis by (simp add: valid_utf8_1)
      next
        case hi: False
        show ?thesis
        proof (cases "utf8_len (c # cs) = 0")
          case True
          with nb hi Cons vc show ?thesis by (simp add: valid_replacement)
        next
          case False
          from hi have "128 \<le> byte c" by simp
          from well_escaped_drop_seq [OF False this] w Cons
          have wd: "well_escaped (drop (utf8_len (c # cs) - 1) cs)" by simp
          from Cons have "length (drop (utf8_len (c # cs) - 1) cs) < length s" by simp
          note vd = IH [OF this wd]
          from valid_utf8_take [OF False, of "unquote (drop (utf8_len (c # cs) - 1) cs)"] vd
          have "valid_utf8 0 (take (utf8_len (c # cs)) (c # cs)
                   @ unquote (drop (utf8_len (c # cs) - 1) cs))" by simp
          with nb hi False Cons show ?thesis by simp
        qed
      qed
    qed
  qed
qed


lemma well_escaped_snoc: "well_escaped p \<Longrightarrow> c \<noteq> backslash \<Longrightarrow> well_escaped (p @ [c])"
  by (induction p rule: well_escaped.induct) (auto simp add: well_escaped.simps)

lemma well_escaped_snoc_escape:
  "well_escaped p \<Longrightarrow> byte e < 128 \<Longrightarrow> well_escaped (p @ [backslash, e])"
  by (induction p rule: well_escaped.induct) (auto simp add: well_escaped.simps)

lemma begin_token_inv:
  assumes "list_all tok_ok acc" and "begin_token c acc = Some sa'"
  shows "lex_inv sa'"
  using assms
  by (auto simp add: begin_token_def lex_inv_def tok_ok_def val_ok_def well_escaped.simps
           split: if_splits)

lemma lex_step_inv:
  assumes "lex_inv sa" and "lex_step sa c = Some sa'"
  shows "lex_inv sa'"
proof -
  obtain s acc where sa: "sa = (s, acc)" by (cases sa)
  from assms(1) have acc: "list_all tok_ok acc" by (simp add: sa lex_inv_def)
  show ?thesis
  proof (cases s)
    case LBetween
    with assms(2) sa have "begin_token c acc = Some sa'" by (simp add: lex_step_def)
    from begin_token_inv [OF acc this] show ?thesis .
  next
    case (LString raw)
    with assms(1) sa have w: "well_escaped (rev raw)" by (simp add: lex_inv_def)
    from unquote_valid [OF w] have "tok_ok (TValue (JString (unquote (rev raw))))"
      by (simp add: tok_ok_def val_ok_def ValidString_def)
    with assms(2) sa LString acc w show ?thesis
      by (auto simp add: lex_step_def lex_inv_def well_escaped_snoc split: if_splits)
  next
    case (LEscape raw)
    with assms(1) sa obtain raw' where raw: "raw = backslash # raw'"
      and w: "well_escaped (rev raw')"
      by (auto simp add: lex_inv_def split: list.splits)
    have "well_escaped (rev raw' @ [backslash, c])" if "byte c < 128"
      using w that by (rule well_escaped_snoc_escape)
    with assms(2) sa LEscape acc raw show ?thesis
      by (auto simp add: lex_step_def lex_inv_def byte_def split: if_splits)
  next
    case (LHex n raw)
    with assms(1) sa have w: "well_escaped (rev raw)" by (simp add: lex_inv_def)
    have "well_escaped (rev raw @ [c])" if "hex_val c \<noteq> None"
      using w hex_not_backslash [OF that] by (rule well_escaped_snoc)
    with assms(2) sa LHex acc show ?thesis
      by (auto simp add: lex_step_def lex_inv_def split: if_splits)
  next
    case (LNumber ns raw)
    have "list_all tok_ok (TValue (JNumber (rev raw)) # acc)"
      using acc by (simp add: tok_ok_def val_ok_def)
    from begin_token_inv [OF this] assms(2) sa LNumber acc show ?thesis
      by (auto simp add: lex_step_def lex_inv_def split: num_next.splits)
  next
    case (LLiteral rest v)
    with assms(1) sa have "val_ok v" by (simp add: lex_inv_def)
    with assms(2) sa LLiteral acc show ?thesis
      by (auto simp add: lex_step_def lex_inv_def tok_ok_def split: list.splits if_splits)
  qed
qed

lemma lex_all_inv: "lex_inv sa \<Longrightarrow> lex_all sa cs = Some sa' \<Longrightarrow> lex_inv sa'"
proof (induction cs arbitrary: sa)
  case Nil
  then show ?case by simp
next
  case (Cons c cs)
  then show ?case
    by (auto split: option.splits dest: lex_step_inv)
qed

lemma json_tokens_ok: "json_tokens data = Some ts \<Longrightarrow> list_all tok_ok ts"
proof -
  assume a: "json_tokens data = Some ts"
  have i: "lex_inv (LBetween, [])" by (simp add: lex_inv_def)
  from a obtain s acc where l: "lex_all (LBetween, []) data = Some (s, acc)"
    by (auto simp add: json_tokens_def split: option.splits)
  from lex_all_inv [OF i l] have "list_all tok_ok acc" by (simp add: lex_inv_def)
  with a l show ?thesis
    by (auto simp add: json_tokens_def tok_ok_def val_ok_def
             split: lex_state.splits if_splits)
qed


lemma end_value_inv:
  assumes "val_ok v" and "list_all frame_ok stack" and "end_value v stack = Some ps'"
  shows "parse_inv ps'"
  using assms
  by (auto simp add: end_value_def parse_inv_def frame_ok_def member_ok_def val_ok_def
           split: list.splits frame.splits option.splits json.splits)

lemma begin_value_inv:
  assumes "tok_ok t" and "list_all frame_ok stack" and "begin_value t stack = Some ps'"
  shows "parse_inv ps'"
proof (cases t)
  case (TValue v)
  with assms(1) have "val_ok v" by (simp add: tok_ok_def)
  from end_value_inv [OF this assms(2)] assms(3) TValue show ?thesis
    by (simp add: begin_value_def)
qed (use assms in \<open>auto simp add: begin_value_def parse_inv_def frame_ok_def split: if_splits\<close>)

lemma close_array_inv:
  assumes "list_all frame_ok stack" and "close_array stack = Some ps'"
  shows "parse_inv ps'"
proof -
  from assms(2) obtain vs up where s: "stack = InArray vs # up"
    and e: "end_value (JArray (rev vs)) up = Some ps'"
    by (auto simp add: close_array_def split: list.splits frame.splits)
  have "val_ok (JArray (rev vs))" by (simp add: val_ok_def)
  from end_value_inv [OF this _ e] assms(1) s show ?thesis by simp
qed

lemma close_object_inv:
  assumes "list_all frame_ok stack" and "close_object stack = Some ps'"
  shows "parse_inv ps'"
proof -
  from assms(2) obtain ms up where s: "stack = InObject ms None # up"
    and e: "end_value (JObject (rev ms)) up = Some ps'"
    by (auto simp add: close_object_def split: list.splits frame.splits option.splits)
  from assms(1) s have "val_ok (JObject (rev ms))" by (simp add: val_ok_def frame_ok_def)
  from end_value_inv [OF this _ e] assms(1) s show ?thesis by simp
qed

lemma read_key_inv:
  assumes "list_all frame_ok stack" and "read_key t stack = Some ps'"
  shows "parse_inv ps'"
  using assms
  by (auto simp add: read_key_def parse_inv_def frame_ok_def
           split: token.splits json.splits list.splits frame.splits option.splits)

lemma parse_step_inv:
  assumes "parse_inv ps" and "tok_ok t" and "parse_step ps t = Some ps'"
  shows "parse_inv ps'"
proof -
  obtain p stack where ps: "ps = (p, stack)" by (cases ps)
  from assms(1) have st: "list_all frame_ok stack" by (simp add: ps parse_inv_def)
  note invs = begin_value_inv [OF assms(2) st] close_array_inv [OF st] close_object_inv [OF st]
    read_key_inv [OF st]
  from st have same: "parse_inv (ExpectValue, stack)" "parse_inv (ExpectKey, stack)"
    by (simp_all add: parse_inv_def)
  from assms(3) same show ?thesis
    unfolding ps parse_step_def
    by (cases p) (auto split: if_splits list.splits frame.splits intro: invs)
qed

lemma parse_all_inv:
  "parse_inv ps \<Longrightarrow> list_all tok_ok ts \<Longrightarrow> parse_all ps ts = Some ps' \<Longrightarrow> parse_inv ps'"
proof (induction ts arbitrary: ps)
  case Nil
  then show ?case by simp
next
  case (Cons t ts)
  then show ?case
    by (auto split: option.splits dest: parse_step_inv)
qed

lemma json_scan_ok: "json_scan data = Some d \<Longrightarrow> val_ok d"
proof -
  assume a: "json_scan data = Some d"
  then obtain ts where t: "json_tokens data = Some ts"
    by (auto simp add: json_scan_def split: option.splits)
  with a obtain stack where p: "parse_all (ExpectValue, []) ts = Some (EndTop d, stack)"
    by (auto simp add: json_scan_def split: option.splits parse_state.splits)
  have "parse_inv (ExpectValue, [])" by (simp add: parse_inv_def)
  from parse_all_inv [OF this json_tokens_ok [OF t] p] show ?thesis
    by (simp add: parse_inv_def)
qed

lemma string_values_valid:
  "list_all member_ok ms \<Longrightarrow> list_all ValidString (string_values tag ms)"
  by (induction ms) (auto simp add: member_ok_def split: json.splits)

lemma model_strings_valid: "list_all ValidString (model_strings bodyBuf)"
proof (cases "json_scan bodyBuf")
  case None
  then show ?thesis by (simp add: model_strings_def)
next
  case (Some d)
  from json_scan_ok [OF Some] Some show ?thesis
    by (cases d) (simp_all add: model_strings_def val_ok_def string_values_valid)
qed

lemma model_of_payload:
  "model_of (payload_of bodyBuf) =
     (if model_strings bodyBuf = [] \<or> last (model_strings bodyBuf) = '''' then ''unknown''
      else last (model_strings bodyBuf))"
proof (cases "json_scan bodyBuf")
  case None
  then show ?thesis
    by (simp add: model_of_def payload_of_def Unmarshal_RequestPayload_def model_strings_def)
next
  case (Some d)
  then show ?thesis
    by (cases d)
       (simp_all add: model_of_def payload_of_def Unmarshal_RequestPayload_def model_strings_def
          fold_member_RequestPayload_Model)
qed

lemma ValidString_model: "ValidString (model_of (payload_of bodyBuf))"
proof (cases "model_strings bodyBuf = [] \<or> last (model_strings bodyBuf) = ''''")
  case True
  have "ValidString ''unknown''"
    by (rule ValidString_ascii) (simp add: byte_def)
  with True show ?thesis
    by (simp add: model_of_payload)
next
  case False
  then have "model_strings bodyBuf \<noteq> []" by simp
  from last_list_all [OF model_strings_valid this] False show ?thesis
    by (simp add: model_of_payload)
qed

subsection \<open>The branches of the handler\<close>

lemma relay_streaming_metrics:
  assumes "list_all ValidString [endpoint, model, statusLabel, streamLabel]"
  shows "metrics (final (relay_streaming env endpoint model statusLabel streamLabel resp st)) =
           metrics st @
             [Add bytesOut [endpoint, model, streamLabel]
                (float64 (int (fst (fst (Copy (writer st) (RespBody resp)))))),
              Inc reqTotal [endpoint, model, statusLabel, streamLabel],
              Observe reqDuration [endpoint, model, streamLabel] (Since env)]
       \<and> \<not> panicked (relay_streaming env endpoint model statusLabel streamLabel resp st)"
  using assms
  by (simp add: relay_streaming_def Counter_Add_ok Counter_Inc_ok Histogram_Observe_ok
        float64_nonneg logf_def and_then_def Let_def split: prod.splits)

lemma relay_streaming_writer:
  "writer (final (relay_streaming env endpoint model statusLabel streamLabel resp st)) =
     snd (Copy (writer st) (RespBody resp))"
  by (auto simp add: relay_streaming_def Counter_Add_def Counter_Inc_def Histogram_Observe_def
        WithLabelValues_def logf_def and_then_def Let_def split: prod.splits)

lemma relay_streaming_other:
  assumes "s \<noteq> bytesOut" and "s \<noteq> reqTotal" and "s \<noteq> reqDuration"
  shows "calls_on s
           (metrics (final (relay_streaming env endpoint model statusLabel streamLabel resp st))) =
         calls_on s (metrics st)"
  using assms
  by (auto simp add: relay_streaming_def Counter_Add_def Counter_Inc_def Histogram_Observe_def
        WithLabelValues_def logf_def and_then_def calls_on_def Let_def split: prod.splits)

lemma token_metrics_counts:
  assumes "Unmarshal_OllamaResponseMetrics respBuf \<lparr>EvalCount = None, PromptEvalCount = None\<rparr> =
             (m, None)"
      and "list_all ValidString [endpoint, model]"
      and "case PromptEvalCount m of None \<Rightarrow> True | Some p \<Rightarrow> 0 \<le> sint p"
      and "case EvalCount m of None \<Rightarrow> True | Some e \<Rightarrow> 0 \<le> sint e"
  shows "token_metrics endpoint model respBuf st =
           Ok (st\<lparr>metrics := metrics st @ token_ops endpoint model m\<rparr>)"
  using assms
  by (auto simp add: token_metrics_def token_ops_def Counter_Add_ok float64_nonneg and_then_def
           split: option.splits)

lemma token_metrics_error:
  assumes "Unmarshal_OllamaResponseMetrics respBuf \<lparr>EvalCount = None, PromptEvalCount = None\<rparr> =
             (m, Some e)"
  shows "token_metrics endpoint model respBuf st = Ok st"
  using assms by (simp add: token_metrics_def)

lemma token_metrics_other:
  "writer (final (token_metrics endpoint model respBuf st)) = writer st
   \<and> calls_on bytesOut (metrics (final (token_metrics endpoint model respBuf st))) =
       calls_on bytesOut (metrics st)
   \<and> calls_on reqTotal (metrics (final (token_metrics endpoint model respBuf st))) =
       calls_on reqTotal (metrics st)
   \<and> calls_on reqDuration (metrics (final (token_metrics endpoint model respBuf st))) =
       calls_on reqDuration (metrics st)"
  by (auto simp add: token_metrics_def Counter_Add_def WithLabelValues_def and_then_def
           calls_on_def split: prod.splits option.splits)

lemma relay_buffered_run:
  assumes "ReadAll (RespBody resp) = (respBuf, None)"
      and "list_all ValidString [endpoint, model, statusLabel, streamLabel]"
      and "token_metrics endpoint model respBuf
             (st\<lparr>metrics := metrics st @
                   [Add bytesOut [endpoint, model, streamLabel]
                      (float64 (int (length respBuf)))]\<rparr>) = Ok st2"
  shows "metrics (final (relay_buffered env endpoint model statusLabel streamLabel resp st)) =
           metrics st2 @ [Inc reqTotal [endpoint, model, statusLabel, streamLabel],
                          Observe reqDuration [endpoint, model, streamLabel] (Since env)]
       \<and> \<not> panicked (relay_buffered env endpoint model statusLabel streamLabel resp st)
       \<and> writer (final (relay_buffered env endpoint model statusLabel streamLabel resp st)) =
           snd (Write respBuf (writer st2))"
  using assms
  by (auto simp add: relay_buffered_def Counter_Add_ok Counter_Inc_ok Histogram_Observe_ok
        float64_nonneg logf_def and_then_def w_Write_def Let_def split: prod.splits)

lemma relay_buffered_read_error:
  assumes "ReadAll (RespBody resp) = (respBuf, Some e)"
  shows "relay_buffered env endpoint model statusLabel streamLabel resp st =
           Ok (logf ''failed to read upstream response body'' st)"
  using assms by (simp add: relay_buffered_def)

lemma relay_buffered_panic:
  assumes "ReadAll (RespBody resp) = (respBuf, None)"
      and "list_all ValidString [endpoint, model, statusLabel, streamLabel]"
      and "token_metrics endpoint model respBuf
             (st\<lparr>metrics := metrics st @
                   [Add bytesOut [endpoint, model, streamLabel]
                      (float64 (int (length respBuf)))]\<rparr>) = Panic p st2"
  shows "relay_buffered env endpoint model statusLabel streamLabel resp st = Panic p st2"
  using assms
  by (simp add: relay_buffered_def Counter_Add_ok float64_nonneg and_then_def)

lemma relay_buffered_bytesOut:
  assumes "ReadAll (RespBody resp) = (respBuf, None)"
      and "list_all ValidString [endpoint, model, statusLabel, streamLabel]"
  shows "calls_on bytesOut
           (metrics (final (relay_buffered env endpoint model statusLabel streamLabel resp st))) =
         calls_on bytesOut (metrics st) @
           [Add bytesOut [endpoint, model, streamLabel] (float64 (int (length respBuf)))]"
proof -
  let ?st1 = "st\<lparr>metrics := metrics st @
                  [Add bytesOut [endpoint, model, streamLabel]
                     (float64 (int (length respBuf)))]\<rparr>"
  show ?thesis
  proof (cases "token_metrics endpoint model respBuf ?st1")
    case (Ok st2)
    with token_metrics_other [of endpoint model respBuf ?st1]
    have "calls_on bytesOut (metrics st2) = calls_on bytesOut (metrics ?st1)" by simp
    with relay_buffered_run [OF assms Ok, of env] show ?thesis
      by (simp add: calls_on_def)
  next
    case (Panic p st2)
    with token_metrics_other [of endpoint model respBuf ?st1]
    have "calls_on bytesOut (metrics st2) = calls_on bytesOut (metrics ?st1)" by simp
    with relay_buffered_panic [OF assms Panic, of env] show ?thesis
      by (simp add: calls_on_def)
  qed
qed

lemma relay_buffered_sent:
  assumes "ReadAll (RespBody resp) = (respBuf, None)"
      and "list_all ValidString [endpoint, model, statusLabel, streamLabel]"
  shows "length (sent (writer (final
             (relay_buffered env endpoint model statusLabel streamLabel resp st))))
           \<le> length (sent (writer st)) + length respBuf
       \<and> (takes_all (room (writer st)) respBuf
            \<and> \<not> panicked (relay_buffered env endpoint model statusLabel streamLabel resp st) \<longrightarrow>
          sent (writer (final (relay_buffered env endpoint model statusLabel streamLabel resp st))) =
            sent (writer st) @ respBuf)"
proof -
  let ?st1 = "st\<lparr>metrics := metrics st @
                  [Add bytesOut [endpoint, model, streamLabel]
                     (float64 (int (length respBuf)))]\<rparr>"
  show ?thesis
  proof (cases "token_metrics endpoint model respBuf ?st1")
    case (Ok st2)
    with token_metrics_other [of endpoint model respBuf ?st1]
    have w2: "writer st2 = writer st" by simp
    obtain n e rw' where w: "Write respBuf (writer st) = ((n, e), rw')"
      by (metis prod.exhaust)
    from relay_buffered_run [OF assms Ok, of env] w w2
    have fin: "writer (final (relay_buffered env endpoint model statusLabel streamLabel resp st)) = rw'"
      by simp
    from Write_sent_length [OF w] Write_takes_all [of "writer st" respBuf] w
    show ?thesis by (auto simp add: fin)
  next
    case (Panic p st2)
    with token_metrics_other [of endpoint model respBuf ?st1]
    have w2: "writer st2 = writer st" by simp
    with relay_buffered_panic [OF assms Panic, of env] show ?thesis
      by simp
  qed
qed

text \<open>
  A request whose body was read, with a path that line 168 accepts as a label value
  (the model and the stream label always are), whose upstream request was built and answered, with a status that \<^verbatim>\<open>WriteHeader\<close> accepts, reaches one
  of the two relays. Until then the handler has counted the request bytes, made one
  upstream call and written no body.
\<close>

lemma reach_relay:
  assumes "read_body r = Inr bodyBuf"
      and "ValidString (Path (URL r))"
      and "upstream_request env r bodyBuf = Inr upReq"
      and "Do env upReq = Inr resp"
      and "100 \<le> StatusCode resp" and "StatusCode resp \<le> 999"
  obtains st3 where
    "proxyHandler env rw r =
       (if \<not> stream_of (payload_of bodyBuf)
        then relay_buffered env (Path (URL r)) (model_of (payload_of bodyBuf))
               (Itoa (StatusCode resp)) (streamLabel_of (stream_of (payload_of bodyBuf))) resp st3
        else relay_streaming env (Path (URL r)) (model_of (payload_of bodyBuf))
               (Itoa (StatusCode resp)) (streamLabel_of (stream_of (payload_of bodyBuf))) resp st3)"
    and "metrics st3 = [Add bytesIn [Path (URL r), model_of (payload_of bodyBuf),
                          streamLabel_of (stream_of (payload_of bodyBuf))]
                          (float64 (int (length bodyBuf)))]"
    and "upstream st3 = [upReq]"
    and "sent (writer st3) = sent rw" and "room (writer st3) = room rw"
proof -
  define st1 where "st1 = \<lparr>metrics = [Add bytesIn [Path (URL r), model_of (payload_of bodyBuf),
                          streamLabel_of (stream_of (payload_of bodyBuf))]
                          (float64 (int (length bodyBuf)))],
                       writer = rw, upstream = [], logged = []\<rparr>"
  define st2 where "st2 = st1\<lparr>upstream := upstream st1 @ [upReq],
     writer := (writer st1)\<lparr>header := Header_AddAll (RespHeader resp) (header (writer st1))\<rparr>\<rparr>"
  from w_WriteHeader_valid [OF assms(5,6), of st2]
  obtain rw' where wh: "w_WriteHeader (StatusCode resp) st2 = Ok (st2\<lparr>writer := rw'\<rparr>)"
    and s: "sent rw' = sent (writer st2)" and k: "room rw' = room (writer st2)"
    by blast
  have run: "proxyHandler env rw r =
       (if \<not> stream_of (payload_of bodyBuf)
        then relay_buffered env (Path (URL r)) (model_of (payload_of bodyBuf))
               (Itoa (StatusCode resp)) (streamLabel_of (stream_of (payload_of bodyBuf))) resp
               (st2\<lparr>writer := rw'\<rparr>)
        else relay_streaming env (Path (URL r)) (model_of (payload_of bodyBuf))
               (Itoa (StatusCode resp)) (streamLabel_of (stream_of (payload_of bodyBuf))) resp
               (st2\<lparr>writer := rw'\<rparr>))"
    using assms(1-4) wh
    by (simp add: proxyHandler_def forward_def Counter_Add_ok ValidString_model ValidString_streamLabel
          float64_nonneg and_then_def Let_def st1_def st2_def)
  show thesis
    by (rule that [OF run]) (simp_all add: st2_def st1_def s k)
qed

text \<open>
  Buffered mode, the upstream body read in full and holding only token counts in its two
  count fields: every call the handler makes on the metrics.
\<close>

lemma buffered_token_calls:
  assumes "read_body r = Inr bodyBuf"
      and "ValidString (Path (URL r))"
      and "\<not> stream_of (payload_of bodyBuf)"
      and "upstream_request env r bodyBuf = Inr upReq"
      and "Do env upReq = Inr resp"
      and "100 \<le> StatusCode resp" and "StatusCode resp \<le> 999"
      and "ReadAll (RespBody resp) = (respBuf, None)"
      and "json_scan respBuf = Some (JObject ms)"
      and "list_all token_count (field_values ''prompt_eval_count'' ms)"
      and "list_all token_count (field_values ''eval_count'' ms)"
  shows "metrics (final (proxyHandler env rw r)) =
           [Add bytesIn [Path (URL r), model_of (payload_of bodyBuf), ''false'']
              (float64 (int (length bodyBuf))),
            Add bytesOut [Path (URL r), model_of (payload_of bodyBuf), ''false'']
              (float64 (int (length respBuf)))]
           @ (case count_field ''prompt_eval_count'' ms of
                None \<Rightarrow> []
              | Some n \<Rightarrow> [Add tokensIn [Path (URL r), model_of (payload_of bodyBuf)] (float64 n)])
           @ (case count_field ''eval_count'' ms of
                None \<Rightarrow> []
              | Some n \<Rightarrow> [Add tokensOut [Path (URL r), model_of (payload_of bodyBuf)] (float64 n)])
           @ [Inc reqTotal [Path (URL r), model_of (payload_of bodyBuf),
                            Itoa (StatusCode resp), ''false''],
              Observe reqDuration [Path (URL r), model_of (payload_of bodyBuf), ''false'']
                (Since env)]
       \<and> \<not> panicked (proxyHandler env rw r)"
proof -
  let ?ep = "Path (URL r)" and ?model = "model_of (payload_of bodyBuf)"
  let ?m = "\<lparr>EvalCount = map_option word_of_int (count_field ''eval_count'' ms),
             PromptEvalCount = map_option word_of_int (count_field ''prompt_eval_count'' ms)\<rparr>
            :: OllamaResponseMetrics"
  from reach_relay [OF assms(1,2,4,5,6,7), of rw] assms(3)
  obtain st3 where run: "proxyHandler env rw r =
        relay_buffered env ?ep ?model (Itoa (StatusCode resp)) ''false'' resp st3"
    and m3: "metrics st3 = [Add bytesIn [?ep, ?model, ''false''] (float64 (int (length bodyBuf)))]"
    by (auto simp add: streamLabel_of_def)
  from relay_labels [OF assms(2) ValidString_model [of bodyBuf], of "StatusCode resp" False]
  have v: "list_all ValidString [?ep, ?model, Itoa (StatusCode resp), ''false'']"
    by (simp add: streamLabel_of_def)
  then have v2: "list_all ValidString [?ep, ?model]" by simp
  have um: "Unmarshal_OllamaResponseMetrics respBuf \<lparr>EvalCount = None, PromptEvalCount = None\<rparr> =
              (?m, None)"
    by (rule Unmarshal_OllamaResponseMetrics_counts
          [OF assms(9) list_all_token_count [OF assms(11)] list_all_token_count [OF assms(10)]])
  have p: "case PromptEvalCount ?m of None \<Rightarrow> True | Some p \<Rightarrow> 0 \<le> sint p"
    using count_field_token_count [OF assms(10)] by (auto split: option.splits)
  have e: "case EvalCount ?m of None \<Rightarrow> True | Some e \<Rightarrow> 0 \<le> sint e"
    using count_field_token_count [OF assms(11)] by (auto split: option.splits)
  have ops: "token_ops ?ep ?model ?m =
      (case count_field ''prompt_eval_count'' ms of
                None \<Rightarrow> []
              | Some n \<Rightarrow> [Add tokensIn [?ep, ?model] (float64 n)])
           @ (case count_field ''eval_count'' ms of
                None \<Rightarrow> []
              | Some n \<Rightarrow> [Add tokensOut [?ep, ?model] (float64 n)])"
    using count_field_token_count [OF assms(10)] count_field_token_count [OF assms(11)]
    by (auto simp add: token_ops_def split: option.splits)
  from relay_buffered_run [OF assms(8) v token_metrics_counts [OF um v2 p e]]
  show ?thesis
    by (simp add: run m3 ops)
qed

text \<open>
  The request counter and the duration histogram on the branches that reach the end of a
  relay: one call each, with the labels of the request and the upstream's status.
\<close>

lemma relay_buffered_request_metrics:
  assumes "ReadAll (RespBody resp) = (respBuf, None)"
      and "list_all ValidString [endpoint, model, statusLabel, streamLabel]"
      and "\<not> panicked (relay_buffered env endpoint model statusLabel streamLabel resp st)"
  shows "calls_on reqTotal
           (metrics (final (relay_buffered env endpoint model statusLabel streamLabel resp st))) =
         calls_on reqTotal (metrics st) @ [Inc reqTotal [endpoint, model, statusLabel, streamLabel]]
       \<and> calls_on reqDuration
           (metrics (final (relay_buffered env endpoint model statusLabel streamLabel resp st))) =
         calls_on reqDuration (metrics st) @
           [Observe reqDuration [endpoint, model, streamLabel] (Since env)]"
proof -
  let ?st1 = "st\<lparr>metrics := metrics st @
                  [Add bytesOut [endpoint, model, streamLabel]
                     (float64 (int (length respBuf)))]\<rparr>"
  show ?thesis
  proof (cases "token_metrics endpoint model respBuf ?st1")
    case (Ok st2)
    with token_metrics_other [of endpoint model respBuf ?st1]
    have "calls_on reqTotal (metrics st2) = calls_on reqTotal (metrics st)"
      and "calls_on reqDuration (metrics st2) = calls_on reqDuration (metrics st)"
      by (simp_all add: calls_on_def)
    with relay_buffered_run [OF assms(1,2) Ok, of env] show ?thesis
      by (simp add: calls_on_def)
  next
    case (Panic p st2)
    with relay_buffered_panic [OF assms(1,2) Panic, of env] assms(3) show ?thesis
      by simp
  qed
qed

lemma request_metrics_once:
  assumes "read_body r = Inr bodyBuf"
      and "ValidString (Path (URL r))"
      and "upstream_request env r bodyBuf = Inr upReq"
      and "Do env upReq = Inr resp"
      and "100 \<le> StatusCode resp" and "StatusCode resp \<le> 999"
      and "stream_of (payload_of bodyBuf) \<or> snd (ReadAll (RespBody resp)) = None"
      and "\<not> panicked (proxyHandler env rw r)"
  shows "calls_on reqTotal (metrics (final (proxyHandler env rw r))) =
           [Inc reqTotal [Path (URL r), model_of (payload_of bodyBuf), Itoa (StatusCode resp),
                          streamLabel_of (stream_of (payload_of bodyBuf))]]
       \<and> calls_on reqDuration (metrics (final (proxyHandler env rw r))) =
           [Observe reqDuration [Path (URL r), model_of (payload_of bodyBuf),
                                 streamLabel_of (stream_of (payload_of bodyBuf))] (Since env)]"
proof -
  let ?ep = "Path (URL r)" and ?model = "model_of (payload_of bodyBuf)"
  let ?sl = "streamLabel_of (stream_of (payload_of bodyBuf))"
  from reach_relay [OF assms(1-6), of rw]
  obtain st3 where run: "proxyHandler env rw r =
       (if \<not> stream_of (payload_of bodyBuf)
        then relay_buffered env ?ep ?model (Itoa (StatusCode resp)) ?sl resp st3
        else relay_streaming env ?ep ?model (Itoa (StatusCode resp)) ?sl resp st3)"
    and m3: "metrics st3 = [Add bytesIn [?ep, ?model, ?sl] (float64 (int (length bodyBuf)))]"
    by blast
  note v = relay_labels [OF assms(2) ValidString_model [of bodyBuf], of "StatusCode resp"
      "stream_of (payload_of bodyBuf)"]
  show ?thesis
  proof (cases "stream_of (payload_of bodyBuf)")
    case True
    with relay_streaming_metrics [OF v, of env resp st3] show ?thesis
      by (simp add: run m3 calls_on_def)
  next
    case False
    with assms(7) obtain respBuf where ra: "ReadAll (RespBody resp) = (respBuf, None)"
      by (metis prod.collapse)
    from False assms(8) have np: "\<not> panicked
        (relay_buffered env ?ep ?model (Itoa (StatusCode resp)) ?sl resp st3)"
      by (simp add: run)
    from relay_buffered_request_metrics [OF ra v np] False show ?thesis
      by (simp add: run m3 calls_on_def)
  qed
qed

text \<open>Buffered mode, the upstream body read in full and not decoded: no token metrics.\<close>

lemma buffered_undecoded_calls:
  assumes "read_body r = Inr bodyBuf"
      and "ValidString (Path (URL r))"
      and "\<not> stream_of (payload_of bodyBuf)"
      and "upstream_request env r bodyBuf = Inr upReq"
      and "Do env upReq = Inr resp"
      and "100 \<le> StatusCode resp" and "StatusCode resp \<le> 999"
      and "ReadAll (RespBody resp) = (respBuf, None)"
      and "snd (Unmarshal_OllamaResponseMetrics respBuf
                  \<lparr>EvalCount = None, PromptEvalCount = None\<rparr>) \<noteq> None"
  shows "metrics (final (proxyHandler env rw r)) =
           [Add bytesIn [Path (URL r), model_of (payload_of bodyBuf), ''false'']
              (float64 (int (length bodyBuf))),
            Add bytesOut [Path (URL r), model_of (payload_of bodyBuf), ''false'']
              (float64 (int (length respBuf))),
            Inc reqTotal [Path (URL r), model_of (payload_of bodyBuf),
                          Itoa (StatusCode resp), ''false''],
            Observe reqDuration [Path (URL r), model_of (payload_of bodyBuf), ''false'']
              (Since env)]"
proof -
  let ?ep = "Path (URL r)" and ?model = "model_of (payload_of bodyBuf)"
  from reach_relay [OF assms(1,2,4,5,6,7), of rw] assms(3)
  obtain st3 where run: "proxyHandler env rw r =
        relay_buffered env ?ep ?model (Itoa (StatusCode resp)) ''false'' resp st3"
    and m3: "metrics st3 = [Add bytesIn [?ep, ?model, ''false''] (float64 (int (length bodyBuf)))]"
    by (auto simp add: streamLabel_of_def)
  from relay_labels [OF assms(2) ValidString_model [of bodyBuf], of "StatusCode resp" False]
  have v: "list_all ValidString [?ep, ?model, Itoa (StatusCode resp), ''false'']"
    by (simp add: streamLabel_of_def)
  from assms(9) obtain m e where
    um: "Unmarshal_OllamaResponseMetrics respBuf \<lparr>EvalCount = None, PromptEvalCount = None\<rparr> =
           (m, Some e)"
    by (metis not_None_eq prod.collapse)
  from relay_buffered_run [OF assms(8) v token_metrics_error [OF um]]
  show ?thesis
    by (simp add: run m3)
qed

text \<open>Streaming mode: after the request bytes, no call on a series but the three below.\<close>

lemma forward_streaming_calls:
  assumes "s \<noteq> bytesOut" and "s \<noteq> reqTotal" and "s \<noteq> reqDuration"
  shows "calls_on s (metrics (final (forward env r endpoint model True streamLabel bodyBuf st))) =
           calls_on s (metrics st)"
proof (cases "upstream_request env r bodyBuf")
  case (Inl e)
  then show ?thesis by (simp add: forward_def http_Error_metrics)
next
  case (Inr upReq)
  note up = this
  show ?thesis
  proof (cases "Do env upReq")
    case (Inl e)
    with up assms show ?thesis
      by (auto simp add: forward_def http_Error_metrics Let_def calls_on_def
          Counter_Inc_def Histogram_Observe_def WithLabelValues_def and_then_def logf_def)
  next
    case (Inr resp)
    note resp = this
    show ?thesis
    proof (cases "w_WriteHeader (StatusCode resp)
                   (st\<lparr>upstream := upstream st @ [upReq],
                       writer := (writer st)\<lparr>header :=
                         Header_AddAll (RespHeader resp) (header (writer st))\<rparr>\<rparr>)")
      case (Ok st3)
      from w_WriteHeader_Ok_metrics [OF Ok] have "metrics st3 = metrics st" by simp
      with Ok resp up assms show ?thesis
        by (simp add: forward_def Let_def and_then_def relay_streaming_other)
    next
      case (Panic p st3)
      from w_WriteHeader_Panic [OF Panic] have "metrics st3 = metrics st" by simp
      with Panic resp up show ?thesis
        by (simp add: forward_def Let_def and_then_def)
    qed
  qed
qed

subsection \<open>The example upstreams\<close>

lemma answering_upstream_request:
  "\<exists>upReq. upstream_request (answering code body) r bodyBuf = Inr upReq"
  by (simp add: upstream_request_def answering_def Let_def)

lemma answering_Do:
  "Do (answering code body) upReq =
     Inr \<lparr>StatusCode = code, RespHeader = (\<lambda>key. []), RespBody = body\<rparr>"
  by (simp add: answering_def)

lemma unreachable_upstream_request:
  "\<exists>upReq. upstream_request unreachable r bodyBuf = Inr upReq"
  by (simp add: upstream_request_def unreachable_def Let_def)

lemma unreachable_Do:
  "Do unreachable upReq =
     Inl (ErrorString ''dial tcp 127.0.0.1:11434: connect: connection refused'')"
  by (simp add: unreachable_def)

lemma with_status_upstream_request:
  "upstream_request (with_status code env) r bodyBuf = upstream_request env r bodyBuf"
  by (simp add: upstream_request_def with_status_def)

lemma with_status_Do:
  "Do env upReq = Inr resp \<Longrightarrow> Do (with_status code env) upReq = Inr (resp\<lparr>StatusCode := code\<rparr>)"
  by (simp add: with_status_def)

lemma read_body_post_generate: "read_body (post_generate (Reader [b] None)) = Inr b"
  by (simp add: read_body_def post_generate_def ReadAll_def)

text \<open>
  Buffered mode: the calls on the token counters do not depend on the upstream status.
  With any status code that \<^verbatim>\<open>WriteHeader\<close> accepts in place of the upstream's, a body whose
  count fields are token counts gives one call for each field that is present.
\<close>

lemma buffered_tokens_any_status:
  assumes "read_body r = Inr bodyBuf"
      and "ValidString (Path (URL r))"
      and "\<not> stream_of (payload_of bodyBuf)"
      and "upstream_request env r bodyBuf = Inr upReq"
      and "Do env upReq = Inr resp"
      and "ReadAll (RespBody resp) = (respBuf, None)"
      and "json_scan respBuf = Some (JObject ms)"
      and "list_all token_count (field_values ''prompt_eval_count'' ms)"
      and "list_all token_count (field_values ''eval_count'' ms)"
      and "100 \<le> code" and "code \<le> 999"
  shows "calls_on tokensIn (metrics (final (proxyHandler (with_status code env) rw r))) =
           (case count_field ''prompt_eval_count'' ms of
              None \<Rightarrow> []
            | Some n \<Rightarrow> [Add tokensIn [Path (URL r), model_of (payload_of bodyBuf)] (float64 n)])
       \<and> calls_on tokensOut (metrics (final (proxyHandler (with_status code env) rw r))) =
           (case count_field ''eval_count'' ms of
              None \<Rightarrow> []
            | Some n \<Rightarrow> [Add tokensOut [Path (URL r), model_of (payload_of bodyBuf)] (float64 n)])"
proof -
  let ?resp = "resp\<lparr>StatusCode := code\<rparr>"
  have u: "upstream_request (with_status code env) r bodyBuf = Inr upReq"
    by (simp add: with_status_upstream_request assms(4))
  have d: "Do (with_status code env) upReq = Inr ?resp"
    by (rule with_status_Do [OF assms(5)])
  have c: "100 \<le> StatusCode ?resp" "StatusCode ?resp \<le> 999"
    using assms(10,11) by simp_all
  have ra: "ReadAll (RespBody ?resp) = (respBuf, None)"
    using assms(6) by simp
  show ?thesis
    unfolding buffered_token_calls [OF assms(1-3) u d c ra assms(7,8,9), THEN conjunct1]
    by (simp add: calls_on_def split: option.splits)
qed

subsection \<open>Label values that are rejected, counts that are rounded\<close>

text \<open>
  A request whose path is not valid UTF-8 ends on line 168: \<^verbatim>\<open>WithLabelValues\<close> panics
  before any metric call and before the upstream request is built. The path \<^verbatim>\<open>/api/%ff\<close>
  is such a path. The properties below that follow a request past line 168 therefore
  take a path that is valid UTF-8; the model is, whatever the body (lemma
  \<open>ValidString_model\<close>).
\<close>

lemma rejected_labels_panic:
  assumes "read_body r = Inr bodyBuf"
      and "\<not> ValidString (Path (URL r))"
  shows "proxyHandler env rw r =
           Panic ''label value is not valid UTF-8''
             \<lparr>metrics = [], writer = rw, upstream = [], logged = []\<rparr>"
  using assms
  by (auto simp add: proxyHandler_def Counter_Add_def WithLabelValues_def and_then_def Let_def)

lemma ill_formed_path_panics:
  "panicked (proxyHandler unreachable (new_writer None)
      (buffered_request\<lparr>URL := \<lparr>Host = '''', Path = ''/api/'' @ [CHR 0xFF], RawQuery = ''''\<rparr>\<rparr>))
   \<and> metrics (final (proxyHandler unreachable (new_writer None)
      (buffered_request\<lparr>URL := \<lparr>Host = '''', Path = ''/api/'' @ [CHR 0xFF], RawQuery = ''''\<rparr>\<rparr>))) = []
   \<and> upstream (final (proxyHandler unreachable (new_writer None)
      (buffered_request\<lparr>URL := \<lparr>Host = '''', Path = ''/api/'' @ [CHR 0xFF], RawQuery = ''''\<rparr>\<rparr>))) = []
   \<and> status (writer (final (proxyHandler unreachable (new_writer None)
      (buffered_request\<lparr>URL := \<lparr>Host = '''', Path = ''/api/'' @ [CHR 0xFF], RawQuery = ''''\<rparr>\<rparr>)))) = None"
  by code_simp

text \<open>
  A count from \<open>2 ^ 53\<close> on is added as \<^verbatim>\<open>float64\<close> rounds it: \<open>2 ^ 53 + 1\<close> is added as
  \<open>2 ^ 53\<close>.
\<close>

lemma large_count_is_rounded:
  \<open>calls_on tokensOut (metrics (final (proxyHandler
      (answering 200 (Reader [''{"eval_count":9007199254740993}''] None))
      (new_writer None) buffered_request))) =
     [Add tokensOut [''/api/generate'', ''llama3''] 9007199254740992]\<close>
  by code_simp

section \<open>Properties of the handler\<close>

subsection \<open>Request counter and duration histogram\<close>

text \<open>
  C1. The claim: every request that reaches the upstream call and ends increments
  \<^verbatim>\<open>requests_total\<close> once and observes \<^verbatim>\<open>request_duration_seconds\<close> once, on every branch.
  The handler misses one branch. In buffered mode, when the upstream has answered (here
  with status 200, already sent to the client) and reading its body fails, line 221
  returns: the only metric call of the request is the one on the request bytes. (On the
  branches that reach the end of a relay the two calls are made once each, with the labels
  the claim names: lemma \<open>request_metrics_once\<close>; so they are when the upstream call
  fails, see C5.)
\<close>

theorem unreadable_upstream_body_no_request_metrics:
  \<open>metrics (final (proxyHandler
      (answering 200 (Reader [''{"response":"par''] (Some (ErrorString ''unexpected EOF''))))
      (new_writer None) buffered_request)) =
     [Add bytesIn [''/api/generate'', ''llama3'', ''false''] 47]
   \<and> status (writer (final (proxyHandler
      (answering 200 (Reader [''{"response":"par''] (Some (ErrorString ''unexpected EOF''))))
      (new_writer None) buffered_request))) = Some 200
   \<and> length (upstream (final (proxyHandler
      (answering 200 (Reader [''{"response":"par''] (Some (ErrorString ''unexpected EOF''))))
      (new_writer None) buffered_request))) = 1
   \<and> \<not> panicked (proxyHandler
      (answering 200 (Reader [''{"response":"par''] (Some (ErrorString ''unexpected EOF''))))
      (new_writer None) buffered_request)\<close>
  by code_simp

subsection \<open>Response bytes\<close>

text \<open>
  C2, as stated: in both relay modes the amount added to \<^verbatim>\<open>response_bytes_out_total\<close> is
  the number of body bytes written to the client. It fails in buffered mode: the length
  of the buffered body is added before the body is written (line 224), and what the write
  returns is dropped (line 237). Here the upstream body has 56 bytes and the client's
  connection takes 5.
\<close>

theorem bytes_out_counts_unwritten_bytes:
  \<open>added_to bytesOut (metrics (final (proxyHandler
      (answering 200 (Reader [''{"response":"...","eval_count":10,"prompt_eval_count":3}''] None))
      (new_writer (Some 5)) buffered_request))) = 56
   \<and> calls_on bytesOut (metrics (final (proxyHandler
      (answering 200 (Reader [''{"response":"...","eval_count":10,"prompt_eval_count":3}''] None))
      (new_writer (Some 5)) buffered_request))) =
     [Add bytesOut [''/api/generate'', ''llama3'', ''false''] 56]
   \<and> sent (writer (final (proxyHandler
      (answering 200 (Reader [''{"response":"...","eval_count":10,"prompt_eval_count":3}''] None))
      (new_writer (Some 5)) buffered_request))) = ''{"res''\<close>
  by code_simp

text \<open>
  C2, amended. Take a request that reaches the relay: its path is valid UTF-8, so that
  \<^verbatim>\<open>WithLabelValues\<close> accepts it on line 168, and the upstream answers it with a status
  \<^verbatim>\<open>WriteHeader\<close> accepts and a body of less than \<open>2 ^ 53\<close> bytes, which \<^verbatim>\<open>float64\<close> counts
  exactly. Then:
  \<^item> streaming mode: one call on the series, and its amount is the number of body bytes
    written to the client, whether the copy ended at the end of the body or in an error;
  \<^item> buffered mode, the upstream body cannot be read: no call, and no byte written;
  \<^item> buffered mode, the upstream body read: one call, and its amount is the length of the
    buffered body. No more bytes than that are written, and exactly the body is written
    when the connection takes all of it and the handler does not panic before the write.
\<close>

theorem bytes_out_amended:
  assumes "read_body r = Inr bodyBuf"
      and "ValidString (Path (URL r))"
      and "upstream_request env r bodyBuf = Inr upReq"
      and "Do env upReq = Inr resp"
      and "100 \<le> StatusCode resp" and "StatusCode resp \<le> 999"
      and "ReadAll (RespBody resp) = (respBuf, rerr)"
      and "int (length respBuf) < 2 ^ 53"
  shows "(stream_of (payload_of bodyBuf) \<longrightarrow>
            calls_on bytesOut (metrics (final (proxyHandler env (new_writer k) r))) =
              [Add bytesOut [Path (URL r), model_of (payload_of bodyBuf), ''true'']
                 (int (length (sent (writer (final (proxyHandler env (new_writer k) r))))))])
       \<and> (\<not> stream_of (payload_of bodyBuf) \<and> rerr \<noteq> None \<longrightarrow>
            calls_on bytesOut (metrics (final (proxyHandler env (new_writer k) r))) = []
            \<and> sent (writer (final (proxyHandler env (new_writer k) r))) = [])
       \<and> (\<not> stream_of (payload_of bodyBuf) \<and> rerr = None \<longrightarrow>
            calls_on bytesOut (metrics (final (proxyHandler env (new_writer k) r))) =
              [Add bytesOut [Path (URL r), model_of (payload_of bodyBuf), ''false'']
                 (int (length respBuf))]
            \<and> length (sent (writer (final (proxyHandler env (new_writer k) r)))) \<le> length respBuf
            \<and> (takes_all k respBuf \<and> \<not> panicked (proxyHandler env (new_writer k) r) \<longrightarrow>
                 sent (writer (final (proxyHandler env (new_writer k) r))) = respBuf))"
proof -
  let ?ep = "Path (URL r)" and ?model = "model_of (payload_of bodyBuf)"
  let ?sl = "streamLabel_of (stream_of (payload_of bodyBuf))"
  from reach_relay [OF assms(1-6), of "new_writer k"]
  obtain st3 where run: "proxyHandler env (new_writer k) r =
       (if \<not> stream_of (payload_of bodyBuf)
        then relay_buffered env ?ep ?model (Itoa (StatusCode resp)) ?sl resp st3
        else relay_streaming env ?ep ?model (Itoa (StatusCode resp)) ?sl resp st3)"
    and m3: "metrics st3 = [Add bytesIn [?ep, ?model, ?sl] (float64 (int (length bodyBuf)))]"
    and s3: "sent (writer st3) = sent (new_writer k)"
    and k3: "room (writer st3) = room (new_writer k)"
    by blast
  have s0: "sent (writer st3) = []" and k0: "room (writer st3) = k"
    by (simp_all add: s3 k3 new_writer_def)
  note v = relay_labels [OF assms(2) ValidString_model [of bodyBuf], of "StatusCode resp"
      "stream_of (payload_of bodyBuf)"]
  from assms(8) have exact: "float64 (int (length respBuf)) = int (length respBuf)"
    by (simp add: float64_exact)
  have streaming: ?thesis if str: "stream_of (payload_of bodyBuf)"
  proof -
    obtain n e rw' where c: "Copy (writer st3) (RespBody resp) = ((n, e), rw')"
      by (metis prod.exhaust)
    from Copy_sent [OF c] s0 have l: "length (sent rw') = n" by simp
    from Copy_bound [OF c] assms(7) have "n \<le> length respBuf" by (simp add: ReadAll_def)
    with assms(8) have "float64 (int n) = int n" by (simp add: float64_exact)
    with str c l relay_streaming_metrics [OF v, of env resp st3] show ?thesis
      by (simp add: run relay_streaming_writer m3 calls_on_def streamLabel_of_def)
  qed
  have unread: ?thesis if buf: "\<not> stream_of (payload_of bodyBuf)" and re: "rerr \<noteq> None"
  proof -
    from re obtain e where "rerr = Some e" by auto
    with assms(7) have "ReadAll (RespBody resp) = (respBuf, Some e)" by simp
    from relay_buffered_read_error [OF this] buf re show ?thesis
      by (simp add: run m3 s0 calls_on_def logf_def)
  qed
  have buffered: ?thesis if buf: "\<not> stream_of (payload_of bodyBuf)" and re: "rerr = None"
  proof -
    from assms(7) re have ra: "ReadAll (RespBody resp) = (respBuf, None)" by simp
    from relay_buffered_bytesOut [OF ra v, of env st3] relay_buffered_sent [OF ra v, of env st3]
      buf re
    show ?thesis
      by (simp add: run m3 s0 k0 exact calls_on_def streamLabel_of_def)
  qed
  from streaming unread buffered show ?thesis by blast
qed

theorem bytes_out_amended_witness:
  \<open>calls_on bytesOut (metrics (final (proxyHandler
      (answering 200 (Reader [''{"response":"Hel'', ''lo"}'', ''{"done":true}'']
                        (Some (ErrorString ''connection reset''))))
      (new_writer (Some 20)) streaming_request))) =
     [Add bytesOut [''/api/generate'', ''llama3'', ''true''] 20]
   \<and> length (sent (writer (final (proxyHandler
      (answering 200 (Reader [''{"response":"Hel'', ''lo"}'', ''{"done":true}'']
                        (Some (ErrorString ''connection reset''))))
      (new_writer (Some 20)) streaming_request)))) = 20\<close>
proof -
  let ?body = \<open>''{"model":"llama3","stream":true}''\<close>
  let ?rd = \<open>Reader [''{"response":"Hel'', ''lo"}'', ''{"done":true}'']
                (Some (ErrorString ''connection reset''))\<close>
  have b: "read_body streaming_request = Inr ?body"
    by (simp add: streaming_request_def read_body_post_generate)
  obtain upReq where u: "upstream_request (answering 200 ?rd) streaming_request ?body = Inr upReq"
    using answering_upstream_request by blast
  have s: "stream_of (payload_of ?body)" by code_simp
  have m: "model_of (payload_of ?body) = ''llama3''" by code_simp
  have l: "length (sent (writer (final (proxyHandler (answering 200 ?rd)
             (new_writer (Some 20)) streaming_request)))) = 20"
    by code_simp
  have ep: "Path (URL streaming_request) = ''/api/generate''"
    by (simp add: streaming_request_def post_generate_def)
  have vp: "ValidString (Path (URL streaming_request))"
    unfolding ep by code_simp
  from bytes_out_amended [OF b vp u answering_Do, of "concat (chunks ?rd)" "failure ?rd"
      "Some 20"] s
  have "calls_on bytesOut (metrics (final (proxyHandler (answering 200 ?rd)
            (new_writer (Some 20)) streaming_request))) =
          [Add bytesOut [Path (URL streaming_request), model_of (payload_of ?body), ''true'']
             (int (length (sent (writer (final (proxyHandler (answering 200 ?rd)
                (new_writer (Some 20)) streaming_request))))))]"
    by (simp add: ReadAll_def)
  then show ?thesis
    unfolding ep m l by simp
qed

subsection \<open>The model label\<close>

text \<open>
  C3, as stated: the extracted model is "unknown" if and only if the body is absent, is
  not valid JSON, or lacks a string model field, and otherwise it is the model string
  verbatim. It fails on a body whose model field is the empty string: the body is valid
  JSON and has a string model field, but line 155 replaces the empty model by "unknown".
\<close>

theorem empty_model_is_unknown:
  \<open>model_of (payload_of ''{"model":""}'') = ''unknown''
   \<and> json_scan ''{"model":""}'' = Some (JObject [(''model'', JString '''')])\<close>
  by code_simp

text \<open>
  C3, amended. Take the strings carried by the model members of the body (none when the
  body is absent, is not valid JSON or is not an object; a member names the field when
  its key is model up to case, as \<^verbatim>\<open>encoding/json\<close> matches keys). The extracted model is
  "unknown" when there is no such string or the last one is empty, and otherwise the last
  one, verbatim. So it is "unknown" if and only if there is none, or the last one is
  empty or is "unknown" itself.
\<close>

theorem model_label_amended:
  "model_of (payload_of bodyBuf) =
     (if model_strings bodyBuf = [] \<or> last (model_strings bodyBuf) = '''' then ''unknown''
      else last (model_strings bodyBuf))"
proof (cases "json_scan bodyBuf")
  case None
  then show ?thesis
    by (simp add: model_of_def payload_of_def Unmarshal_RequestPayload_def model_strings_def)
next
  case (Some d)
  then show ?thesis
    by (cases d)
       (simp_all add: model_of_def payload_of_def Unmarshal_RequestPayload_def model_strings_def
          fold_member_RequestPayload_Model)
qed

theorem model_label_amended_witness:
  \<open>model_strings ''{"model":"llama3","prompt":"Hi","stream":false}'' = [''llama3'']
   \<and> model_of (payload_of ''{"model":"llama3","prompt":"Hi","stream":false}'') = ''llama3''\<close>
proof -
  have ms: \<open>model_strings ''{"model":"llama3","prompt":"Hi","stream":false}'' = [''llama3'']\<close>
    by code_simp
  from model_label_amended [of \<open>''{"model":"llama3","prompt":"Hi","stream":false}''\<close>]
  show ?thesis
    unfolding ms by simp
qed

subsection \<open>Token counters in buffered mode\<close>

text \<open>
  C4, as stated: in buffered mode, when the upstream body is JSON containing integer fields
  \<^verbatim>\<open>prompt_eval_count\<close> and/or \<^verbatim>\<open>eval_count\<close>, each token counter is incremented by its
  field. It fails when the other field has the wrong type: \<^verbatim>\<open>json.Unmarshal\<close> then returns
  an error, and line 228 records token counts only when it returns none. Here
  \<^verbatim>\<open>eval_count\<close> is the integer 10 and \<^verbatim>\<open>completion_tokens_total\<close> is not touched; the
  request itself is counted.
\<close>

theorem ill_typed_sibling_stops_token_count:
  \<open>json_scan ''{"eval_count":10,"prompt_eval_count":"3"}'' =
     Some (JObject [(''eval_count'', JNumber ''10''), (''prompt_eval_count'', JString ''3'')])
   \<and> calls_on tokensOut (metrics (final (proxyHandler
        (answering 200 (Reader [''{"eval_count":10,"prompt_eval_count":"3"}''] None))
        (new_writer None) buffered_request))) = []
   \<and> calls_on reqTotal (metrics (final (proxyHandler
        (answering 200 (Reader [''{"eval_count":10,"prompt_eval_count":"3"}''] None))
        (new_writer None) buffered_request))) =
       [Inc reqTotal [''/api/generate'', ''llama3'', ''200'', ''false'']]\<close>
  by code_simp

text \<open>
  C4, amended. In buffered mode, for a request whose path is valid UTF-8 (so that
  \<^verbatim>\<open>WithLabelValues\<close> accepts it on line 168), with the upstream body read in full:
  \<^item> when the body is a JSON object in which every \<^verbatim>\<open>prompt_eval_count\<close> and every
    \<^verbatim>\<open>eval_count\<close> member is an exact count (an integer literal that is not negative and
    is below \<open>2 ^ 53\<close>, so that \<^verbatim>\<open>float64\<close> on lines 230 and 233 holds it as it is), the
    handler adds exactly the value of \<^verbatim>\<open>prompt_eval_count\<close> to \<^verbatim>\<open>prompt_tokens_total\<close> and
    exactly the value of \<^verbatim>\<open>eval_count\<close> to \<^verbatim>\<open>completion_tokens_total\<close>, with the labels
    endpoint and model, and it makes no call on the counter of a field that is absent;
  \<^item> when \<^verbatim>\<open>json.Unmarshal\<close> of the body returns an error, it makes no call on either
    counter.
  From \<open>2 ^ 53\<close> on the amount is the count rounded by \<^verbatim>\<open>float64\<close> (lemma
  \<open>buffered_token_calls\<close>).
\<close>

theorem token_counters_amended:
  assumes "read_body r = Inr bodyBuf"
      and "ValidString (Path (URL r))"
      and "\<not> stream_of (payload_of bodyBuf)"
      and "upstream_request env r bodyBuf = Inr upReq"
      and "Do env upReq = Inr resp"
      and "100 \<le> StatusCode resp" and "StatusCode resp \<le> 999"
      and "ReadAll (RespBody resp) = (respBuf, None)"
  shows "(json_scan respBuf = Some (JObject ms)
          \<and> list_all exact_count (field_values ''prompt_eval_count'' ms)
          \<and> list_all exact_count (field_values ''eval_count'' ms) \<longrightarrow>
            calls_on tokensIn (metrics (final (proxyHandler env rw r))) =
              (case count_field ''prompt_eval_count'' ms of
                 None \<Rightarrow> []
               | Some n \<Rightarrow> [Add tokensIn [Path (URL r), model_of (payload_of bodyBuf)] n])
            \<and> calls_on tokensOut (metrics (final (proxyHandler env rw r))) =
              (case count_field ''eval_count'' ms of
                 None \<Rightarrow> []
               | Some n \<Rightarrow> [Add tokensOut [Path (URL r), model_of (payload_of bodyBuf)] n]))
       \<and> (snd (Unmarshal_OllamaResponseMetrics respBuf
                   \<lparr>EvalCount = None, PromptEvalCount = None\<rparr>) \<noteq> None \<longrightarrow>
            calls_on tokensIn (metrics (final (proxyHandler env rw r))) = []
            \<and> calls_on tokensOut (metrics (final (proxyHandler env rw r))) = [])"
proof (intro conjI impI)
  assume a: "json_scan respBuf = Some (JObject ms)
          \<and> list_all exact_count (field_values ''prompt_eval_count'' ms)
          \<and> list_all exact_count (field_values ''eval_count'' ms)"
  then have j: "json_scan respBuf = Some (JObject ms)"
    and x1: "list_all exact_count (field_values ''prompt_eval_count'' ms)"
    and x2: "list_all exact_count (field_values ''eval_count'' ms)"
    by simp_all
  note t1 = list_all_exact_count [OF x1] and t2 = list_all_exact_count [OF x2]
  show "calls_on tokensIn (metrics (final (proxyHandler env rw r))) =
              (case count_field ''prompt_eval_count'' ms of
                 None \<Rightarrow> []
               | Some n \<Rightarrow> [Add tokensIn [Path (URL r), model_of (payload_of bodyBuf)] n])"
    unfolding buffered_token_calls [OF assms j t1 t2, THEN conjunct1]
    by (simp add: calls_on_def count_field_exact [OF x1] split: option.splits)
  show "calls_on tokensOut (metrics (final (proxyHandler env rw r))) =
              (case count_field ''eval_count'' ms of
                 None \<Rightarrow> []
               | Some n \<Rightarrow> [Add tokensOut [Path (URL r), model_of (payload_of bodyBuf)] n])"
    unfolding buffered_token_calls [OF assms j t1 t2, THEN conjunct1]
    by (simp add: calls_on_def count_field_exact [OF x2] split: option.splits)
next
  assume e: "snd (Unmarshal_OllamaResponseMetrics respBuf
                   \<lparr>EvalCount = None, PromptEvalCount = None\<rparr>) \<noteq> None"
  show "calls_on tokensIn (metrics (final (proxyHandler env rw r))) = []"
    unfolding buffered_undecoded_calls [OF assms e] by (simp add: calls_on_def)
  show "calls_on tokensOut (metrics (final (proxyHandler env rw r))) = []"
    unfolding buffered_undecoded_calls [OF assms e] by (simp add: calls_on_def)
qed

theorem token_counters_amended_witness:
  \<open>calls_on tokensIn (metrics (final (proxyHandler
      (answering 200 (Reader [''{"response":"...","eval_count":10,"prompt_eval_count":3}''] None))
      (new_writer None) buffered_request))) =
     [Add tokensIn [''/api/generate'', ''llama3''] 3]
   \<and> calls_on tokensOut (metrics (final (proxyHandler
      (answering 200 (Reader [''{"response":"...","eval_count":10,"prompt_eval_count":3}''] None))
      (new_writer None) buffered_request))) =
     [Add tokensOut [''/api/generate'', ''llama3''] 10]\<close>
proof -
  let ?body = \<open>''{"model":"llama3","prompt":"Hi","stream":false}''\<close>
  let ?resp = \<open>''{"response":"...","eval_count":10,"prompt_eval_count":3}''\<close>
  let ?ms = "[(''response'', JString ''...''), (''eval_count'', JNumber ''10''),
              (''prompt_eval_count'', JNumber ''3'')]"
  let ?env = "answering 200 (Reader [?resp] None)"
  have b: "read_body buffered_request = Inr ?body"
    by (simp add: buffered_request_def read_body_post_generate)
  have s: "\<not> stream_of (payload_of ?body)" by code_simp
  obtain upReq where u: "upstream_request ?env buffered_request ?body = Inr upReq"
    using answering_upstream_request by blast
  have ra: "ReadAll (RespBody \<lparr>StatusCode = 200, RespHeader = (\<lambda>key. []),
                               RespBody = Reader [?resp] None\<rparr>) = (?resp, None)"
    by (simp add: ReadAll_def)
  have j: "json_scan ?resp = Some (JObject ?ms)" by code_simp
  have t1: "list_all exact_count (field_values ''prompt_eval_count'' ?ms)" by code_simp
  have t2: "list_all exact_count (field_values ''eval_count'' ?ms)" by code_simp
  have c1: "count_field ''prompt_eval_count'' ?ms = Some 3" by code_simp
  have c2: "count_field ''eval_count'' ?ms = Some 10" by code_simp
  have m: "model_of (payload_of ?body) = ''llama3''" by code_simp
  have ep: "Path (URL buffered_request) = ''/api/generate''"
    by (simp add: buffered_request_def post_generate_def)
  have vp: "ValidString (Path (URL buffered_request))"
    unfolding ep by code_simp
  from token_counters_amended [OF b vp s u answering_Do _ _ ra, of ?ms "new_writer None"]
    j t1 t2
  show ?thesis
    unfolding c1 c2 m ep by simp
qed

subsection \<open>The upstream cannot be reached\<close>

text \<open>
  C5. When the upstream call fails with a transport error, the handler answers with
  status 502, increments \<^verbatim>\<open>requests_total\<close> once with the status label "502" and the
  request's endpoint, model and stream labels, observes \<^verbatim>\<open>request_duration_seconds\<close> once,
  and has made one upstream call and no more. This holds in both modes: the mode is not
  looked at before, and no call is made on the response bytes or on the token counters.
  The upstream call is made when the path is valid UTF-8; otherwise \<^verbatim>\<open>WithLabelValues\<close>
  panics on line 168, before the upstream request is built (lemma
  \<open>rejected_labels_panic\<close>).
\<close>

theorem upstream_error_502:
  assumes "read_body r = Inr bodyBuf"
      and "ValidString (Path (URL r))"
      and "upstream_request env r bodyBuf = Inr upReq"
      and "Do env upReq = Inl err"
  shows "status (writer (final (proxyHandler env (new_writer k) r))) = Some 502
       \<and> metrics (final (proxyHandler env (new_writer k) r)) =
           [Add bytesIn [Path (URL r), model_of (payload_of bodyBuf),
                         streamLabel_of (stream_of (payload_of bodyBuf))]
              (float64 (int (length bodyBuf))),
            Inc reqTotal [Path (URL r), model_of (payload_of bodyBuf), ''502'',
                          streamLabel_of (stream_of (payload_of bodyBuf))],
            Observe reqDuration [Path (URL r), model_of (payload_of bodyBuf),
                                 streamLabel_of (stream_of (payload_of bodyBuf))] (Since env)]
       \<and> upstream (final (proxyHandler env (new_writer k) r)) = [upReq]
       \<and> \<not> panicked (proxyHandler env (new_writer k) r)"
proof -
  let ?labels = "[Path (URL r), model_of (payload_of bodyBuf),
                  streamLabel_of (stream_of (payload_of bodyBuf))]"
  let ?st4 = "\<lparr>metrics =
                 [Add bytesIn ?labels (float64 (int (length bodyBuf))),
                  Inc reqTotal [Path (URL r), model_of (payload_of bodyBuf), ''502'',
                                streamLabel_of (stream_of (payload_of bodyBuf))],
                  Observe reqDuration ?labels (Since env)],
               writer = new_writer k, upstream = [upReq], logged = [''upstream error'']\<rparr>"
  from ValidString_Itoa [of 502] have v502: "ValidString ''502''"
    by (simp add: Itoa_502)
  from assms v502
  have run: "proxyHandler env (new_writer k) r = http_Error ''upstream error'' 502 ?st4"
    by (simp add: proxyHandler_def forward_def Counter_Add_ok Counter_Inc_ok
          Histogram_Observe_ok ValidString_model ValidString_streamLabel float64_nonneg
          logf_def and_then_def Let_def Itoa_502)
  have "status (writer ?st4) = None" by (simp add: new_writer_def)
  from http_Error_fresh [OF this, of 502 "''upstream error''"] show ?thesis
    unfolding run by simp
qed

theorem upstream_error_502_witness:
  \<open>status (writer (final (proxyHandler unreachable (new_writer None) buffered_request))) = Some 502
   \<and> metrics (final (proxyHandler unreachable (new_writer None) buffered_request)) =
       [Add bytesIn [''/api/generate'', ''llama3'', ''false''] 47,
        Inc reqTotal [''/api/generate'', ''llama3'', ''502'', ''false''],
        Observe reqDuration [''/api/generate'', ''llama3'', ''false''] 1500000]
   \<and> length (upstream (final (proxyHandler unreachable (new_writer None) buffered_request))) = 1\<close>
proof -
  let ?body = \<open>''{"model":"llama3","prompt":"Hi","stream":false}''\<close>
  have b: "read_body buffered_request = Inr ?body"
    by (simp add: buffered_request_def read_body_post_generate)
  obtain upReq where u: "upstream_request unreachable buffered_request ?body = Inr upReq"
    using unreachable_upstream_request by blast
  have m: "model_of (payload_of ?body) = ''llama3''" by code_simp
  have s: "streamLabel_of (stream_of (payload_of ?body)) = ''false''" by code_simp
  have l: "float64 (int (length ?body)) = 47" by (simp add: float64_exact)
  have ep: "Path (URL buffered_request) = ''/api/generate''"
    by (simp add: buffered_request_def post_generate_def)
  have d: "Since unreachable = 1500000" by (simp add: unreachable_def)
  have vp: "ValidString (Path (URL buffered_request))"
    unfolding ep by code_simp
  from upstream_error_502 [OF b vp u unreachable_Do, of None]
  show ?thesis
    unfolding m s l ep d by simp
qed

subsection \<open>The stream flag\<close>

text \<open>
  C6. The claim: the stream flag is the default \<open>True\<close> exactly when the body has no
  boolean stream field; a stream field of the wrong type yields \<open>True\<close>. The handler drops
  the error of \<^verbatim>\<open>json.Unmarshal\<close> (line 152) and reads the payload it has filled in so far.
  For a stream field of the wrong type the decoder has by then made the \<^verbatim>\<open>*bool\<close> point
  to a new \<^verbatim>\<open>false\<close>, so that \<^verbatim>\<open>payload.Stream != nil\<close> on line 160 and the flag is
  \<open>False\<close>: the request is relayed in buffered mode with the label stream="false".
  The rest of the claim holds: without a stream member, or with a body that is no JSON
  object, the flag is the default, and a boolean stream member gives its value (lemmas
  \<open>stream_flag_no_object\<close>, \<open>stream_flag_absent\<close>, \<open>stream_flag_boolean\<close>); the case that
  fails is lemma \<open>stream_flag_ill_typed\<close>.
\<close>

theorem ill_typed_stream_is_false:
  \<open>json_scan ''{"model":"llama3","stream":"true"}'' =
     Some (JObject [(''model'', JString ''llama3''), (''stream'', JString ''true'')])
   \<and> payload_of ''{"model":"llama3","stream":"true"}'' = \<lparr>Model = ''llama3'', Stream = Some False\<rparr>
   \<and> stream_of (payload_of ''{"model":"llama3","stream":"true"}'') = False
   \<and> metrics (final (proxyHandler unreachable (new_writer None)
        (post_generate (Reader [''{"model":"llama3","stream":"true"}''] None)))) =
       [Add bytesIn [''/api/generate'', ''llama3'', ''false''] 34,
        Inc reqTotal [''/api/generate'', ''llama3'', ''502'', ''false''],
        Observe reqDuration [''/api/generate'', ''llama3'', ''false''] 1500000]\<close>
  by code_simp

subsection \<open>Token counters in streaming mode\<close>

text \<open>
  C7. In streaming mode the handler makes no call on \<^verbatim>\<open>prompt_tokens_total\<close> or
  \<^verbatim>\<open>completion_tokens_total\<close>, whatever the upstream answers (any status, any body, a body
  that ends or fails) and whatever the client's connection takes.
\<close>

theorem streaming_no_token_metrics:
  assumes "read_body r = Inr bodyBuf"
      and "stream_of (payload_of bodyBuf)"
  shows "calls_on tokensIn (metrics (final (proxyHandler env rw r))) = []
       \<and> calls_on tokensOut (metrics (final (proxyHandler env rw r))) = []"
proof -
  let ?labels = "[Path (URL r), model_of (payload_of bodyBuf), ''true'']"
  let ?st0 = "\<lparr>metrics = [], writer = rw, upstream = [], logged = []\<rparr>"
  let ?add = "Counter_Add bytesIn ?labels (float64 (int (length bodyBuf))) ?st0"
  from assms have run: "proxyHandler env rw r =
      and_then ?add
        (forward env r (Path (URL r)) (model_of (payload_of bodyBuf)) True ''true'' bodyBuf)"
    by (simp add: proxyHandler_def Let_def streamLabel_of_def)
  from Counter_Add_cases [of bytesIn ?labels "float64 (int (length bodyBuf))" ?st0]
  show ?thesis
  proof
    assume "?add = Ok (?st0\<lparr>metrics := metrics ?st0 @
               [Add bytesIn ?labels (float64 (int (length bodyBuf)))]\<rparr>)"
    then show ?thesis
      unfolding run
      by (simp add: and_then_def forward_streaming_calls) (simp add: calls_on_def)
  next
    assume "\<exists>p. ?add = Panic p ?st0"
    then show ?thesis
      unfolding run
      by (auto simp add: and_then_def calls_on_def)
  qed
qed

theorem streaming_no_token_metrics_witness:
  \<open>calls_on tokensIn (metrics (final (proxyHandler
      (answering 200 (Reader [''{"response":"...","eval_count":10,"prompt_eval_count":3}''] None))
      (new_writer None) streaming_request))) = []
   \<and> calls_on tokensOut (metrics (final (proxyHandler
      (answering 200 (Reader [''{"response":"...","eval_count":10,"prompt_eval_count":3}''] None))
      (new_writer None) streaming_request))) = []\<close>
proof -
  let ?body = \<open>''{"model":"llama3","stream":true}''\<close>
  have b: "read_body streaming_request = Inr ?body"
    by (simp add: streaming_request_def read_body_post_generate)
  have s: "stream_of (payload_of ?body)" by code_simp
  from streaming_no_token_metrics [OF b s] show ?thesis by blast
qed

subsection \<open>The request body cannot be read\<close>

text \<open>
  C8. When reading the inbound request body fails, the handler answers with status 400,
  hands no request to the upstream client and makes no call on any metric.
\<close>

theorem body_read_failure:
  assumes "Body r = Some rd" and "failure rd = Some err"
  shows "status (writer (final (proxyHandler env (new_writer k) r))) = Some 400
       \<and> upstream (final (proxyHandler env (new_writer k) r)) = []
       \<and> metrics (final (proxyHandler env (new_writer k) r)) = []
       \<and> \<not> panicked (proxyHandler env (new_writer k) r)"
  using assms
  by (simp add: proxyHandler_def read_body_def ReadAll_def writer_defs new_writer_def Let_def
           split: option.splits prod.splits)

theorem body_read_failure_witness:
  "status (writer (final (proxyHandler unreachable (new_writer None)
       (post_generate (Reader [''{'', ''mod''] (Some (ErrorString ''unexpected EOF''))))))) = Some 400
   \<and> upstream (final (proxyHandler unreachable (new_writer None)
       (post_generate (Reader [''{'', ''mod''] (Some (ErrorString ''unexpected EOF'')))))) = []
   \<and> metrics (final (proxyHandler unreachable (new_writer None)
       (post_generate (Reader [''{'', ''mod''] (Some (ErrorString ''unexpected EOF'')))))) = []"
  using body_read_failure [of "post_generate (Reader [''{'', ''mod''] (Some (ErrorString ''unexpected EOF'')))"
      "Reader [''{'', ''mod''] (Some (ErrorString ''unexpected EOF''))" "ErrorString ''unexpected EOF''"
      unreachable None]
  by (simp add: post_generate_def)

subsection \<open>Token counters and the upstream status\<close>

text \<open>
  C9. The claim: in buffered mode, for every upstream response whose body decodes as JSON
  with integer \<^verbatim>\<open>prompt_eval_count\<close> and \<^verbatim>\<open>eval_count\<close> fields, the token counters are
  incremented, whatever the status. The handler indeed never looks at the status before
  line 235, and for counts that are not negative the calls on the two counters are the
  same with every status (lemma \<open>buffered_tokens_any_status\<close>). But it checks no count
  before it passes it to \<^verbatim>\<open>Add\<close>. Here the status is 500 and the body decodes without an
  error, into the integers -1 and 5; \<^verbatim>\<open>tokensIn ... Add(-1)\<close> on line 230 panics, so that
  line 233 is not reached: neither counter is incremented.
\<close>

theorem negative_count_at_500:
  \<open>Unmarshal_OllamaResponseMetrics ''{"prompt_eval_count":-1,"eval_count":5}''
       \<lparr>EvalCount = None, PromptEvalCount = None\<rparr> =
     (\<lparr>EvalCount = Some 5, PromptEvalCount = Some (- 1)\<rparr>, None)
   \<and> status (writer (final (proxyHandler
        (answering 500 (Reader [''{"prompt_eval_count":-1,"eval_count":5}''] None))
        (new_writer None) buffered_request))) = Some 500
   \<and> calls_on tokensIn (metrics (final (proxyHandler
        (answering 500 (Reader [''{"prompt_eval_count":-1,"eval_count":5}''] None))
        (new_writer None) buffered_request))) = []
   \<and> calls_on tokensOut (metrics (final (proxyHandler
        (answering 500 (Reader [''{"prompt_eval_count":-1,"eval_count":5}''] None))
        (new_writer None) buffered_request))) = []
   \<and> panicked (proxyHandler
        (answering 500 (Reader [''{"prompt_eval_count":-1,"eval_count":5}''] None))
        (new_writer None) buffered_request)\<close>
  by code_simp

subsection \<open>The sign of the amounts added\<close>

text \<open>
  C10. The claim: the amounts the handler adds to the two token counters are never
  negative. The handler passes a count of the upstream body to \<^verbatim>\<open>Add\<close> as it is (lines
  229 to 234), and an \<^verbatim>\<open>int64\<close> can be negative. Here \<^verbatim>\<open>eval_count\<close> is -1: the body
  decodes without an error, the amount for \<^verbatim>\<open>completion_tokens_total\<close> is -1, \<^verbatim>\<open>Add\<close>
  panics, and the handler ends there: the body is not written to the client and the
  request is not counted.
\<close>

theorem negative_count_panics:
  \<open>token_ops ''/api/generate'' ''llama3''
       (fst (Unmarshal_OllamaResponseMetrics ''{"eval_count":-1}''
               \<lparr>EvalCount = None, PromptEvalCount = None\<rparr>)) =
     [Add tokensOut [''/api/generate'', ''llama3''] (- 1)]
   \<and> snd (Unmarshal_OllamaResponseMetrics ''{"eval_count":-1}''
             \<lparr>EvalCount = None, PromptEvalCount = None\<rparr>) = None
   \<and> panicked (proxyHandler (answering 200 (Reader [''{"eval_count":-1}''] None))
        (new_writer None) buffered_request)
   \<and> calls_on reqTotal (metrics (final (proxyHandler
        (answering 200 (Reader [''{"eval_count":-1}''] None))
        (new_writer None) buffered_request))) = []
   \<and> sent (writer (final (proxyHandler
        (answering 200 (Reader [''{"eval_count":-1}''] None))
        (new_writer None) buffered_request))) = []\<close>
  by code_simp

end
